theory Spec2Isabelle
  imports Main "HOL-Library.Sublist"
begin

section \<open>The ETL pipeline of 03-pipeline-etl/src/pipeline.py\<close>

text \<open>
  The class \<open>ETLPipeline\<close> sequences three phases (extract, transform, load) over
  collaborators that live outside the file (extractors, cleaner, validator, loader,
  the YAML parser, the clock). The embedding keeps the orchestration as it is written
  and takes every collaborator as a parameter that returns either a value or a raised
  exception and may change the outside world.
\<close>

subsection \<open>Python values and exceptions\<close>

text \<open>The values \<open>yaml.safe_load\<close> can hand back. A dict is an association list in
  insertion order; lookups take the binding \<open>map_of\<close> finds.\<close>

datatype pyval =
    PNone
  | PBool bool
  | PInt int
  | PStr string
  | PList "pyval list"
  | PDict "(string \<times> pyval) list"

text \<open>A raised object, with its class name and what \<open>str(e)\<close> gives. \<open>PyExc\<close> is an
  instance of \<open>Exception\<close>; \<open>PyBaseExc\<close> is an instance of \<open>BaseException\<close> that is not
  one of \<open>Exception\<close> (\<open>KeyboardInterrupt\<close>, \<open>SystemExit\<close>, \<open>GeneratorExit\<close>). The
  handlers of the pipeline are all \<open>except Exception\<close>: they catch the first kind only.\<close>

datatype exn =
    is_Exception: PyExc (exc_class: string) (exc_str: string)
  | PyBaseExc (exc_class: string) (exc_str: string)

definition repr_str :: "string \<Rightarrow> string" where
  "repr_str s = CHR 0x27 # s @ [CHR 0x27]"

fun type_name :: "pyval \<Rightarrow> string" where
  "type_name PNone = ''NoneType''"
| "type_name (PBool b) = ''bool''"
| "type_name (PInt i) = ''int''"
| "type_name (PStr s) = ''str''"
| "type_name (PList xs) = ''list''"
| "type_name (PDict kvs) = ''dict''"

text \<open>\<open>obj.get(k)\<close>: on a dict the value or \<open>None\<close>; other values have no \<open>get\<close>.\<close>

fun dict_get :: "pyval \<Rightarrow> string \<Rightarrow> exn + pyval" where
  "dict_get (PDict kvs) k = Inr (case map_of kvs k of None \<Rightarrow> PNone | Some v \<Rightarrow> v)"
| "dict_get v k =
     Inl (PyExc ''AttributeError''
            (repr_str (type_name v) @ '' object has no attribute '' @ repr_str ''get''))"

text \<open>\<open>obj[k]\<close> with a string key.\<close>

fun getitem :: "pyval \<Rightarrow> string \<Rightarrow> exn + pyval" where
  "getitem (PDict kvs) k =
     (case map_of kvs k of
        None \<Rightarrow> Inl (PyExc ''KeyError'' (repr_str k))
      | Some v \<Rightarrow> Inr v)"
| "getitem (PList xs) k =
     Inl (PyExc ''TypeError'' ''list indices must be integers or slices, not str'')"
| "getitem (PStr s) k =
     Inl (PyExc ''TypeError'' (''string indices must be integers, not '' @ repr_str ''str''))"
| "getitem v k =
     Inl (PyExc ''TypeError'' (repr_str (type_name v) @ '' object is not subscriptable''))"

text \<open>\<open>d[k] = v\<close> on an insertion-ordered dict: an existing key keeps its place, a new
  key goes to the end.\<close>

fun setitem :: "('k \<times> 'v) list \<Rightarrow> 'k \<Rightarrow> 'v \<Rightarrow> ('k \<times> 'v) list" where
  "setitem [] k v = [(k, v)]"
| "setitem ((k', v') # kvs) k v =
     (if k' = k then (k, v) # kvs else (k', v') # setitem kvs k v)"

text \<open>What a callee can make of an object it was handed by reference: the contents of a
  dict or of a list can be replaced in place, the object stays a dict or a list; \<open>None\<close>,
  booleans, numbers and strings are immutable.\<close>

fun mutated :: "pyval \<Rightarrow> pyval \<Rightarrow> pyval" where
  "mutated (PDict kvs) (PDict kvs') = PDict kvs'"
| "mutated (PList xs) (PList xs') = PList xs'"
| "mutated old new = old"

text \<open>The object a dict holds under a key (\<open>None\<close> when there is none), and the dict after
  the object passed from under key \<open>k\<close> as \<open>p\<close> was left by the callee as \<open>p'\<close>. The
  values of the configuration are taken to be trees: no object sits under two keys.\<close>

definition held :: "string \<Rightarrow> pyval \<Rightarrow> pyval" where
  "held k c = (case c of PDict kvs \<Rightarrow> (case map_of kvs k of None \<Rightarrow> PNone | Some v \<Rightarrow> v) | _ \<Rightarrow> PNone)"

definition store_back :: "string \<Rightarrow> pyval \<Rightarrow> pyval \<Rightarrow> pyval \<Rightarrow> pyval" where
  "store_back k p p' c =
     (case c of
        PDict kvs \<Rightarrow>
          (case map_of kvs k of
             None \<Rightarrow> c
           | Some v \<Rightarrow> PDict (setitem kvs k (mutated p p')))
      | _ \<Rightarrow> c)"

text \<open>\<open>sum(len(df) for df in d.values())\<close>; a data frame is the list of its rows.\<close>

definition total_len :: "(string \<times> 'r list) list \<Rightarrow> int" where
  "total_len d = sum_list (map (\<lambda>(source, df). int (length df)) d)"

subsection \<open>The execution log, the logger and the state\<close>

text \<open>An entry of \<open>self.execution_log\<close>: the dict with the keys \<open>fase\<close>, \<open>status\<close>,
  \<open>timestamp\<close> and either \<open>records\<close> or \<open>error\<close>; an absent key is \<open>None\<close>.\<close>

record entry =
  fase :: string
  status :: string
  timestamp :: int
  records :: "int option"
  error :: "string option"

datatype level = INFO | ERROR

text \<open>The lines written through the module's \<open>logger\<close>, one constructor for each call
  site, carrying the values its f-string formats.\<close>

datatype log_msg =
    PipelineInitialized
  | ExtractPhaseStart
  | ExtractingCsv
  | CsvExtracted nat
  | ExtractingApi
  | ApiExtracted nat
  | ExtractFailed string
  | TransformPhaseStart
  | TransformingSource string
  | ApplyingClean
  | Cleaned nat
  | Validating
  | Validated int
  | TransformFailed string
  | LoadPhaseStart
  | LoadingSource string
  | SourceLoaded int string
  | LoadCompleted int
  | LoadFailed string
  | Banner
  | PipelineStarting
  | PipelineSucceeded
  | ExecutionTime int
  | PipelineFailed string

text \<open>The pipeline object (\<open>config\<close>, \<open>execution_log\<close>) together with what surrounds it:
  the lines logged so far and the world the collaborators act on.\<close>

record 'w system =
  config :: pyval
  execution_log :: "entry list"
  logger :: "(level \<times> log_msg) list"
  world :: 'w

text \<open>The collaborators. \<open>csv_extractor p\<close> is \<open>CSVExtractor(p).extract()\<close>,
  \<open>api_extractor u\<close> is \<open>APIExtractor(u).extract()\<close>, \<open>cleaner_clean df\<close> is
  \<open>DataCleaner().clean(df)\<close>, \<open>validator_validate df\<close> is \<open>DataValidator().validate(df)\<close>
  with its report as a dict; \<open>database_loader c\<close> is the constructor \<open>DatabaseLoader(c)\<close>
  and \<open>loader_load l df mode c\<close> is \<open>l.load(df, mode=mode)\<close>. \<open>open_read\<close> opens the
  configuration file for reading, \<open>yaml_safe_load\<close> parses it, \<open>datetime_now\<close> reads the
  clock (in microseconds).

  The extractors and the loader are handed an object of the configuration by reference
  (\<open>self.config.get('csv_path')\<close>, \<open>self.config.get('api_url')\<close>,
  \<open>self.config['database']\<close>), and the loader keeps its object for the calls of \<open>load\<close>.
  So they take the object as it is and give back, beside their result and the world,
  the object as they leave it. A data frame handed to a collaborator is used by the
  pipeline only through what the collaborator returns.\<close>

record ('w, 'r, 'l) env =
  open_read :: "string \<Rightarrow> 'w \<Rightarrow> exn + string"
  yaml_safe_load :: "string \<Rightarrow> exn + pyval"
  datetime_now :: "'w \<Rightarrow> int \<times> 'w"
  csv_extractor :: "pyval \<Rightarrow> 'w \<Rightarrow> (exn + 'r list) \<times> pyval \<times> 'w"
  api_extractor :: "pyval \<Rightarrow> 'w \<Rightarrow> (exn + 'r list) \<times> pyval \<times> 'w"
  cleaner_clean :: "'r list \<Rightarrow> 'w \<Rightarrow> (exn + 'r list) \<times> 'w"
  validator_validate :: "'r list \<Rightarrow> 'w \<Rightarrow> (exn + 'r list \<times> (string \<rightharpoonup> int)) \<times> 'w"
  database_loader :: "pyval \<Rightarrow> 'w \<Rightarrow> (exn + 'l) \<times> pyval \<times> 'w"
  loader_load :: "'l \<Rightarrow> 'r list \<Rightarrow> string \<Rightarrow> pyval \<Rightarrow> 'w \<Rightarrow> (exn + int) \<times> pyval \<times> 'w"

subsection \<open>Statements that may raise\<close>

type_synonym ('a, 'w) action = "'w system \<Rightarrow> (exn + 'a) \<times> 'w system"

definition returnE :: "'a \<Rightarrow> ('a, 'w) action" where
  "returnE x st = (Inr x, st)"

definition raiseE :: "exn \<Rightarrow> ('a, 'w) action" where
  "raiseE e st = (Inl e, st)"

definition liftE :: "exn + 'a \<Rightarrow> ('a, 'w) action" where
  "liftE r st = (r, st)"

definition bindE :: "('a, 'w) action \<Rightarrow> ('a \<Rightarrow> ('b, 'w) action) \<Rightarrow> ('b, 'w) action" where
  "bindE m f st = (case m st of (Inl e, st') \<Rightarrow> (Inl e, st') | (Inr x, st') \<Rightarrow> f x st')"

definition thenE :: "('a, 'w) action \<Rightarrow> ('b, 'w) action \<Rightarrow> ('b, 'w) action" where
  "thenE m k = bindE m (\<lambda>_. k)"

text \<open>\<open>try: m  except Exception as e: h e\<close>. What is raised and is not an instance of
  \<open>Exception\<close> goes past the handler.\<close>

definition try_except :: "('a, 'w) action \<Rightarrow> (exn \<Rightarrow> ('a, 'w) action) \<Rightarrow> ('a, 'w) action" where
  "try_except m h st =
     (case m st of
        (Inl e, st') \<Rightarrow> (if is_Exception e then h e st' else (Inl e, st'))
      | (Inr x, st') \<Rightarrow> (Inr x, st'))"

definition get_config :: "(pyval, 'w) action" where
  "get_config st = (Inr (config st), st)"

definition logger_info :: "log_msg \<Rightarrow> (unit, 'w) action" where
  "logger_info m st = (Inr (), st\<lparr>logger := logger st @ [(INFO, m)]\<rparr>)"

definition logger_error :: "log_msg \<Rightarrow> (unit, 'w) action" where
  "logger_error m st = (Inr (), st\<lparr>logger := logger st @ [(ERROR, m)]\<rparr>)"

definition append_log :: "entry \<Rightarrow> (unit, 'w) action" where
  "append_log en st = (Inr (), st\<lparr>execution_log := execution_log st @ [en]\<rparr>)"

text \<open>A call of a collaborator that is handed nothing of the object.\<close>

definition collab :: "('w \<Rightarrow> (exn + 'a) \<times> 'w) \<Rightarrow> ('a, 'w) action" where
  "collab f st = (case f (world st) of (r, w') \<Rightarrow> (r, st\<lparr>world := w'\<rparr>))"

text \<open>A call of a collaborator that is handed, by reference, the object \<open>p\<close> taken from
  the configuration under key \<open>k\<close>: what it does to the object is seen in the
  configuration. \<open>collab_held\<close> is the call of a collaborator that kept the object under
  key \<open>k\<close> from an earlier call.\<close>

definition collab_ref ::
  "string \<Rightarrow> (pyval \<Rightarrow> 'w \<Rightarrow> (exn + 'a) \<times> pyval \<times> 'w) \<Rightarrow> pyval \<Rightarrow> ('a, 'w) action" where
  "collab_ref k f p st =
     (case f p (world st) of
        (r, p', w') \<Rightarrow> (r, st\<lparr>world := w', config := store_back k p p' (config st)\<rparr>))"

definition collab_held ::
  "string \<Rightarrow> (pyval \<Rightarrow> 'w \<Rightarrow> (exn + 'a) \<times> pyval \<times> 'w) \<Rightarrow> ('a, 'w) action" where
  "collab_held k f st = collab_ref k f (held k (config st)) st"

definition now :: "('w, 'r, 'l) env \<Rightarrow> (int, 'w) action" where
  "now env st = (case datetime_now env (world st) of (t, w') \<Rightarrow> (Inr t, st\<lparr>world := w'\<rparr>))"

subsection \<open>Construction\<close>

text \<open>\<open>_load_config\<close>: open the file, parse it, return what the parser returned.\<close>

definition load_config :: "('w, 'r, 'l) env \<Rightarrow> string \<Rightarrow> 'w \<Rightarrow> exn + pyval" where
  "load_config env config_path w =
     (case open_read env config_path w of
        Inl e \<Rightarrow> Inl e
      | Inr f \<Rightarrow> yaml_safe_load env f)"

text \<open>\<open>__init__\<close>, given the lines logged so far and the world: either the exception of
  \<open>_load_config\<close>, or the new object.\<close>

definition init_pipeline ::
  "('w, 'r, 'l) env \<Rightarrow> string \<Rightarrow> (level \<times> log_msg) list \<Rightarrow> 'w \<Rightarrow> exn + 'w system" where
  "init_pipeline env config_path lg w =
     (case load_config env config_path w of
        Inl e \<Rightarrow> Inl e
      | Inr c \<Rightarrow>
          Inr \<lparr>config = c, execution_log = [],
               logger = lg @ [(INFO, PipelineInitialized)], world = w\<rparr>)"

subsection \<open>Extract\<close>

definition extract_csv ::
  "('w, 'r, 'l) env \<Rightarrow> string list \<Rightarrow> (string \<times> 'r list) list
     \<Rightarrow> ((string \<times> 'r list) list, 'w) action" where
  "extract_csv env sources extracted_data =
     (if ''csv'' \<in> set sources then
        thenE (logger_info ExtractingCsv)
        (bindE get_config (\<lambda>c.
         bindE (liftE (dict_get c ''csv_path'')) (\<lambda>p.
         bindE (collab_ref ''csv_path'' (csv_extractor env) p) (\<lambda>df.
         thenE (logger_info (CsvExtracted (length df)))
         (returnE (setitem extracted_data ''csv'' df))))))
      else returnE extracted_data)"

definition extract_api ::
  "('w, 'r, 'l) env \<Rightarrow> string list \<Rightarrow> (string \<times> 'r list) list
     \<Rightarrow> ((string \<times> 'r list) list, 'w) action" where
  "extract_api env sources extracted_data =
     (if ''api'' \<in> set sources then
        thenE (logger_info ExtractingApi)
        (bindE get_config (\<lambda>c.
         bindE (liftE (dict_get c ''api_url'')) (\<lambda>u.
         bindE (collab_ref ''api_url'' (api_extractor env) u) (\<lambda>df.
         thenE (logger_info (ApiExtracted (length df)))
         (returnE (setitem extracted_data ''api'' df))))))
      else returnE extracted_data)"

text \<open>The method \<open>extract\<close> (the name is an Isar keyword, hence the suffix).\<close>

definition extract_phase ::
  "('w, 'r, 'l) env \<Rightarrow> string list \<Rightarrow> ((string \<times> 'r list) list, 'w) action" where
  "extract_phase env sources =
     thenE (logger_info ExtractPhaseStart)
     (try_except
        (bindE (extract_csv env sources []) (\<lambda>d.
         bindE (extract_api env sources d) (\<lambda>extracted_data.
         bindE (now env) (\<lambda>t.
         thenE (append_log \<lparr>fase = ''extract'', status = ''success'', timestamp = t,
                            records = Some (total_len extracted_data), error = None\<rparr>)
         (returnE extracted_data)))))
        (\<lambda>e.
         thenE (logger_error (ExtractFailed (exc_str e)))
         (bindE (now env) (\<lambda>t.
          thenE (append_log \<lparr>fase = ''extract'', status = ''error'', timestamp = t,
                             records = None, error = Some (exc_str e)\<rparr>)
          (raiseE e)))))"

subsection \<open>Transform\<close>

definition apply_clean :: "('w, 'r, 'l) env \<Rightarrow> string list \<Rightarrow> 'r list \<Rightarrow> ('r list, 'w) action" where
  "apply_clean env rules df =
     (if ''clean'' \<in> set rules then
        thenE (logger_info ApplyingClean)
        (bindE (collab (cleaner_clean env df)) (\<lambda>df'.
         thenE (logger_info (Cleaned (length df')))
         (returnE df')))
      else returnE df)"

definition apply_validate :: "('w, 'r, 'l) env \<Rightarrow> string list \<Rightarrow> 'r list \<Rightarrow> ('r list, 'w) action" where
  "apply_validate env rules df =
     (if ''validate'' \<in> set rules then
        thenE (logger_info Validating)
        (bindE (collab (validator_validate env df)) (\<lambda>(df', validation_report).
         bindE (liftE (case validation_report ''valid_records'' of
                         None \<Rightarrow> Inl (PyExc ''KeyError'' (repr_str ''valid_records''))
                       | Some n \<Rightarrow> Inr n)) (\<lambda>n.
         thenE (logger_info (Validated n))
         (returnE df'))))
      else returnE df)"

text \<open>The body of \<open>for source, df in data.items()\<close>, with the dict built so far.\<close>

fun transform_items ::
  "('w, 'r, 'l) env \<Rightarrow> string list \<Rightarrow> (string \<times> 'r list) list \<Rightarrow> (string \<times> 'r list) list
     \<Rightarrow> ((string \<times> 'r list) list, 'w) action" where
  "transform_items env rules [] transformed_data = returnE transformed_data"
| "transform_items env rules ((source, df) # rest) transformed_data =
     thenE (logger_info (TransformingSource source))
     (bindE (apply_clean env rules df) (\<lambda>df1.
      bindE (apply_validate env rules df1) (\<lambda>df2.
      transform_items env rules rest (setitem transformed_data source df2))))"

definition transform ::
  "('w, 'r, 'l) env \<Rightarrow> (string \<times> 'r list) list \<Rightarrow> string list
     \<Rightarrow> ((string \<times> 'r list) list, 'w) action" where
  "transform env data rules =
     thenE (logger_info TransformPhaseStart)
     (try_except
        (bindE (transform_items env rules data []) (\<lambda>transformed_data.
         bindE (now env) (\<lambda>t.
         thenE (append_log \<lparr>fase = ''transform'', status = ''success'', timestamp = t,
                            records = Some (total_len transformed_data), error = None\<rparr>)
         (returnE transformed_data))))
        (\<lambda>e.
         thenE (logger_error (TransformFailed (exc_str e)))
         (bindE (now env) (\<lambda>t.
          thenE (append_log \<lparr>fase = ''transform'', status = ''error'', timestamp = t,
                             records = None, error = Some (exc_str e)\<rparr>)
          (raiseE e)))))"

subsection \<open>Load\<close>

fun load_items ::
  "('w, 'r, 'l) env \<Rightarrow> 'l \<Rightarrow> string \<Rightarrow> (string \<times> 'r list) list \<Rightarrow> int \<Rightarrow> (int, 'w) action" where
  "load_items env loader mode [] total_records = returnE total_records"
| "load_items env loader mode ((source, df) # rest) total_records =
     thenE (logger_info (LoadingSource source))
     (bindE (collab_held ''database'' (loader_load env loader df mode)) (\<lambda>records_loaded.
      thenE (logger_info (SourceLoaded records_loaded source))
      (load_items env loader mode rest (total_records + records_loaded))))"

definition load ::
  "('w, 'r, 'l) env \<Rightarrow> (string \<times> 'r list) list \<Rightarrow> string \<Rightarrow> (unit, 'w) action" where
  "load env data mode =
     thenE (logger_info LoadPhaseStart)
     (try_except
        (bindE get_config (\<lambda>c.
         bindE (liftE (getitem c ''database'')) (\<lambda>dbc.
         bindE (collab_ref ''database'' (database_loader env) dbc) (\<lambda>loader.
         bindE (load_items env loader mode data 0) (\<lambda>total_records.
         thenE (logger_info (LoadCompleted total_records))
         (bindE (now env) (\<lambda>t.
          append_log \<lparr>fase = ''load'', status = ''success'', timestamp = t,
                      records = Some total_records, error = None\<rparr>)))))))
        (\<lambda>e.
         thenE (logger_error (LoadFailed (exc_str e)))
         (bindE (now env) (\<lambda>t.
          thenE (append_log \<lparr>fase = ''load'', status = ''error'', timestamp = t,
                             records = None, error = Some (exc_str e)\<rparr>)
          (raiseE e)))))"

subsection \<open>Run and the log accessor\<close>

definition run_phases ::
  "('w, 'r, 'l) env \<Rightarrow> string list \<Rightarrow> string list \<Rightarrow> string \<Rightarrow> int \<Rightarrow> (unit, 'w) action" where
  "run_phases env extract_sources transform_rules load_mode start_time =
     bindE (extract_phase env extract_sources) (\<lambda>extracted_data.
     bindE (transform env extracted_data transform_rules) (\<lambda>transformed_data.
     thenE (load env transformed_data load_mode)
     (bindE (now env) (\<lambda>end_time.
      thenE (logger_info Banner)
      (thenE (logger_info PipelineSucceeded)
      (thenE (logger_info (ExecutionTime (end_time - start_time)))
      (logger_info Banner)))))))"

definition run ::
  "('w, 'r, 'l) env \<Rightarrow> string list \<Rightarrow> string list \<Rightarrow> string \<Rightarrow> (unit, 'w) action" where
  "run env extract_sources transform_rules load_mode =
     bindE (now env) (\<lambda>start_time.
     thenE (logger_info Banner)
     (thenE (logger_info PipelineStarting)
     (thenE (logger_info Banner)
     (try_except
        (run_phases env extract_sources transform_rules load_mode start_time)
        (\<lambda>e.
         thenE (logger_error Banner)
         (thenE (logger_error (PipelineFailed (exc_str e)))
         (thenE (logger_error Banner)
         (raiseE e))))))))"

definition get_execution_log :: "(entry list, 'w) action" where
  "get_execution_log st = (Inr (execution_log st), st)"


section \<open>Notions used in the statements\<close>

subsection \<open>Phases, entries and log lines\<close>

definition phase_order :: "string list" where
  "phase_order = [''extract'', ''transform'', ''load'']"

definition phases_after :: "string \<Rightarrow> string list" where
  "phases_after p = drop 1 (dropWhile (\<lambda>q. q \<noteq> p) phase_order)"

text \<open>An entry has a record count exactly when it reports success and an error text
  exactly when it reports an error.\<close>

definition well_formed_entry :: "entry \<Rightarrow> bool" where
  "well_formed_entry en \<longleftrightarrow>
     (status en = ''success'' \<or> status en = ''error'') \<and>
     (records en \<noteq> None) = (status en = ''success'') \<and>
     (error en \<noteq> None) = (status en = ''error'')"

text \<open>The entry a phase \<open>p\<close> builds at time \<open>t\<close>: for a record count the success
  entry, for an exception the error entry. \<open>phase_entries\<close> is what the phase appends:
  that entry, or nothing when what was raised is not an instance of \<open>Exception\<close>.
  \<open>logs_outcome\<close>: the call returned, or raised an instance of \<open>Exception\<close>.\<close>

definition outcome_entry :: "string \<Rightarrow> int \<Rightarrow> exn + int \<Rightarrow> entry" where
  "outcome_entry p t r =
     (case r of
        Inr n \<Rightarrow> \<lparr>fase = p, status = ''success'', timestamp = t, records = Some n, error = None\<rparr>
      | Inl e \<Rightarrow> \<lparr>fase = p, status = ''error'', timestamp = t, records = None,
                  error = Some (exc_str e)\<rparr>)"

definition phase_entries :: "string \<Rightarrow> int \<Rightarrow> exn + int \<Rightarrow> entry list" where
  "phase_entries p t r =
     (case r of
        Inr n \<Rightarrow> [outcome_entry p t r]
      | Inl e \<Rightarrow> (if is_Exception e then [outcome_entry p t r] else []))"

definition logs_outcome :: "exn + 'a \<Rightarrow> bool" where
  "logs_outcome r = (case r of Inr x \<Rightarrow> True | Inl e \<Rightarrow> is_Exception e)"

fun is_duration :: "log_msg \<Rightarrow> bool" where
  "is_duration (ExecutionTime d) = True"
| "is_duration m = False"

text \<open>The lines the logger received between two states.\<close>

definition new_lines :: "'w system \<Rightarrow> 'w system \<Rightarrow> (level \<times> log_msg) list" where
  "new_lines st st' = drop (length (logger st)) (logger st')"

subsection \<open>Relations between the state before and after a statement\<close>

definition steps :: "('w system \<Rightarrow> 'w system \<Rightarrow> bool) \<Rightarrow> ('a, 'w) action \<Rightarrow> bool" where
  "steps R m = (\<forall>st. R st (snd (m st)))"

text \<open>\<open>inner\<close>: the execution log is untouched and no duration line is logged.
  \<open>logged p r\<close>: exactly what phase \<open>p\<close> appends for the outcome \<open>r\<close> is appended.
  \<open>outer\<close>: the execution log only grows. \<open>same_config\<close>: the configuration is kept.\<close>

definition inner :: "'w system \<Rightarrow> 'w system \<Rightarrow> bool" where
  "inner st st' \<longleftrightarrow>
     execution_log st' = execution_log st \<and>
     (\<exists>new. logger st' = logger st @ new \<and> (\<forall>x\<in>set new. \<not> is_duration (snd x)))"

definition logged :: "string \<Rightarrow> exn + int \<Rightarrow> 'w system \<Rightarrow> 'w system \<Rightarrow> bool" where
  "logged p r st st' \<longleftrightarrow>
     (\<exists>t. execution_log st' = execution_log st @ phase_entries p t r) \<and>
     (\<exists>new. logger st' = logger st @ new \<and> (\<forall>x\<in>set new. \<not> is_duration (snd x)))"

definition outer :: "'w system \<Rightarrow> 'w system \<Rightarrow> bool" where
  "outer st st' \<longleftrightarrow> prefix (execution_log st) (execution_log st')"

definition same_config :: "'w system \<Rightarrow> 'w system \<Rightarrow> bool" where
  "same_config st st' \<longleftrightarrow> config st' = config st"

subsection \<open>The bodies of the try blocks\<close>

definition extract_body ::
  "('w, 'r, 'l) env \<Rightarrow> string list \<Rightarrow> ((string \<times> 'r list) list, 'w) action" where
  "extract_body env S = bindE (extract_csv env S []) (extract_api env S)"

definition load_body ::
  "('w, 'r, 'l) env \<Rightarrow> (string \<times> 'r list) list \<Rightarrow> string \<Rightarrow> (int, 'w) action" where
  "load_body env data mode =
     bindE get_config (\<lambda>c.
     bindE (liftE (getitem c ''database'')) (\<lambda>dbc.
     bindE (collab_ref ''database'' (database_loader env) dbc) (\<lambda>loader.
     bindE (load_items env loader mode data 0) (\<lambda>total_records.
     thenE (logger_info (LoadCompleted total_records)) (returnE total_records)))))"

text \<open>The state in which \<open>run\<close> enters its try block: the start time is read and the
  three opening lines are logged.\<close>

definition run_prologue :: "('w, 'r, 'l) env \<Rightarrow> 'w system \<Rightarrow> 'w system" where
  "run_prologue env st =
     (case datetime_now env (world st) of
        (start_time, w') \<Rightarrow>
          st\<lparr>world := w',
             logger := logger st @ [(INFO, Banner), (INFO, PipelineStarting), (INFO, Banner)]\<rparr>)"

text \<open>The phase call of the try block of \<open>run\<close> (lines 206, 209, 212) that raises, with
  the exception it raises; \<open>None\<close> when the three calls return.\<close>

definition failing_phase ::
  "('w, 'r, 'l) env \<Rightarrow> string list \<Rightarrow> string list \<Rightarrow> string \<Rightarrow> 'w system
     \<Rightarrow> (string \<times> exn) option" where
  "failing_phase env extract_sources transform_rules load_mode st =
     (case extract_phase env extract_sources st of
        (Inl e, st1) \<Rightarrow> Some (''extract'', e)
      | (Inr extracted_data, st1) \<Rightarrow>
          (case transform env extracted_data transform_rules st1 of
             (Inl e, st2) \<Rightarrow> Some (''transform'', e)
           | (Inr transformed_data, st2) \<Rightarrow>
               (case load env transformed_data load_mode st2 of
                  (Inl e, st3) \<Rightarrow> Some (''load'', e)
                | (Inr u, st3) \<Rightarrow> None)))"

subsection \<open>A small instance\<close>

text \<open>Collaborators that record their calls in the world, on rows that are numbers: the
  cleaner drops duplicates, the validator keeps the positive rows, the loader reports
  the number of rows it was given; none touches the object it is handed. \<open>failing_env\<close>
  is the same with a cleaner that raises a \<open>ValueError\<close>, \<open>interrupted_env\<close> with a cleaner
  that raises \<open>KeyboardInterrupt\<close>, \<open>negative_env\<close> with a loader that reports \<open>-6\<close>,
  \<open>mutating_env\<close> with a loader whose \<open>load\<close> writes into the database block it holds.\<close>

definition sample_config :: pyval where
  "sample_config =
     PDict [(''csv_path'', PStr ''data/vendas.csv''), (''api_url'', PStr ''http://localhost/vendas''),
            (''database'', PDict [(''host'', PStr ''localhost'')])]"

definition sample_env :: "(string list, nat, unit) env" where
  "sample_env =
     \<lparr>open_read = (\<lambda>path w. if path = ''config/database.yaml'' then Inr ''csv_path: data/vendas.csv''
                             else Inl (PyExc ''FileNotFoundError'' path)),
      yaml_safe_load = (\<lambda>text. Inr sample_config),
      datetime_now = (\<lambda>w. (int (length w), w @ [''now''])),
      csv_extractor = (\<lambda>p w. (Inr [1, 2, 2, 0], p, w @ [''csv''])),
      api_extractor = (\<lambda>u w. (Inr [7], u, w @ [''api''])),
      cleaner_clean = (\<lambda>df w. (Inr (remdups df), w @ [''clean''])),
      validator_validate =
        (\<lambda>df w. (Inr (filter (\<lambda>x. 0 < x) df,
                        [''valid_records'' \<mapsto> int (length (filter (\<lambda>x. 0 < x) df))]),
                  w @ [''validate''])),
      database_loader = (\<lambda>c w. (Inr (), c, w @ [''connect''])),
      loader_load = (\<lambda>l df mode c w. (Inr (int (length df)), c, w @ [''load'']))\<rparr>"

definition sample_state :: "string list system" where
  "sample_state = \<lparr>config = sample_config, execution_log = [], logger = [], world = []\<rparr>"

definition failing_env :: "(string list, nat, unit) env" where
  "failing_env =
     sample_env\<lparr>cleaner_clean := (\<lambda>df w. (Inl (PyExc ''ValueError'' ''bad row''), w @ [''clean'']))\<rparr>"

definition interrupted_env :: "(string list, nat, unit) env" where
  "interrupted_env =
     sample_env\<lparr>cleaner_clean :=
       (\<lambda>df w. (Inl (PyBaseExc ''KeyboardInterrupt'' []), w @ [''clean'']))\<rparr>"

definition negative_env :: "(string list, nat, unit) env" where
  "negative_env =
     sample_env\<lparr>loader_load := (\<lambda>l df mode c w. (Inr (- 6), c, w @ [''load'']))\<rparr>"

definition mutating_env :: "(string list, nat, unit) env" where
  "mutating_env =
     sample_env\<lparr>loader_load :=
       (\<lambda>l df mode c w. (Inr (int (length df)), PDict [(''host'', PStr ''elsewhere'')],
                           w @ [''load'']))\<rparr>"

text \<open>The sample collaborators with a configuration file that parses to the empty
  mapping: no \<open>csv_path\<close>, no \<open>api_url\<close>, no \<open>database\<close>.\<close>

definition keyless_env :: "(string list, nat, unit) env" where
  "keyless_env = sample_env\<lparr>yaml_safe_load := (\<lambda>text. Inr (PDict []))\<rparr>"

subsection \<open>The loader contract\<close>


text \<open>The extractors and the loader leave the object they are handed as it was.\<close>

definition keeps_references :: "('w, 'r, 'l) env \<Rightarrow> bool" where
  "keeps_references env \<longleftrightarrow>
     (\<forall>p w. mutated p (fst (snd (csv_extractor env p w))) = p) \<and>
     (\<forall>p w. mutated p (fst (snd (api_extractor env p w))) = p) \<and>
     (\<forall>p w. mutated p (fst (snd (database_loader env p w))) = p) \<and>
     (\<forall>l df mode p w. mutated p (fst (snd (loader_load env l df mode p w))) = p)"

subsection \<open>Visits and rule sequences\<close>

definition extractor_visits :: "(level \<times> log_msg) list \<Rightarrow> log_msg list" where
  "extractor_visits ls = filter (\<lambda>m. m = ExtractingCsv \<or> m = ExtractingApi) (map snd ls)"

text \<open>The cleaning step and the validation step on one data frame.\<close>

definition clean_step :: "('w, 'r, 'l) env \<Rightarrow> 'r list \<Rightarrow> ('r list, 'w) action" where
  "clean_step env df =
     thenE (logger_info ApplyingClean)
     (bindE (collab (cleaner_clean env df)) (\<lambda>df'.
      thenE (logger_info (Cleaned (length df')))
      (returnE df')))"

definition validate_step :: "('w, 'r, 'l) env \<Rightarrow> 'r list \<Rightarrow> ('r list, 'w) action" where
  "validate_step env df =
     thenE (logger_info Validating)
     (bindE (collab (validator_validate env df)) (\<lambda>(df', validation_report).
      bindE (liftE (case validation_report ''valid_records'' of
                      None \<Rightarrow> Inl (PyExc ''KeyError'' (repr_str ''valid_records''))
                    | Some n \<Rightarrow> Inr n)) (\<lambda>n.
      thenE (logger_info (Validated n))
      (returnE df'))))"

text \<open>Applying a sequence of rules to one data frame, in the order of the sequence; a
  rule that is neither \<open>clean\<close> nor \<open>validate\<close> does nothing.\<close>

fun apply_rules :: "('w, 'r, 'l) env \<Rightarrow> string list \<Rightarrow> 'r list \<Rightarrow> ('r list, 'w) action" where
  "apply_rules env [] df = returnE df"
| "apply_rules env (r # rs) df =
     bindE (if r = ''clean'' then clean_step env df
            else if r = ''validate'' then validate_step env df
            else returnE df)
       (apply_rules env rs)"

fun transform_each ::
  "('w, 'r, 'l) env \<Rightarrow> string list \<Rightarrow> (string \<times> 'r list) list \<Rightarrow> (string \<times> 'r list) list
     \<Rightarrow> ((string \<times> 'r list) list, 'w) action" where
  "transform_each env rs [] transformed_data = returnE transformed_data"
| "transform_each env rs ((source, df) # rest) transformed_data =
     thenE (logger_info (TransformingSource source))
     (bindE (apply_rules env rs df) (\<lambda>df'.
      transform_each env rs rest (setitem transformed_data source df')))"

text \<open>The transform phase that applies the rule sequence \<open>rs\<close>, as given, to every source.\<close>

definition transform_seq ::
  "('w, 'r, 'l) env \<Rightarrow> (string \<times> 'r list) list \<Rightarrow> string list
     \<Rightarrow> ((string \<times> 'r list) list, 'w) action" where
  "transform_seq env data rs =
     thenE (logger_info TransformPhaseStart)
     (try_except
        (bindE (transform_each env rs data []) (\<lambda>transformed_data.
         bindE (now env) (\<lambda>t.
         thenE (append_log \<lparr>fase = ''transform'', status = ''success'', timestamp = t,
                            records = Some (total_len transformed_data), error = None\<rparr>)
         (returnE transformed_data))))
        (\<lambda>e.
         thenE (logger_error (TransformFailed (exc_str e)))
         (bindE (now env) (\<lambda>t.
          thenE (append_log \<lparr>fase = ''transform'', status = ''error'', timestamp = t,
                             records = None, error = Some (exc_str e)\<rparr>)
          (raiseE e)))))"

subsection \<open>Calls on the object\<close>

text \<open>What a caller can do with the object after construction, and the object after a
  sequence of such calls (a call that raises leaves the object as the call left it).\<close>

datatype 'r call =
    CallExtract "string list"
  | CallTransform "(string \<times> 'r list) list" "string list"
  | CallLoad "(string \<times> 'r list) list" string
  | CallRun "string list" "string list" string
  | CallGetExecutionLog

fun perform :: "('w, 'r, 'l) env \<Rightarrow> 'r call \<Rightarrow> 'w system \<Rightarrow> 'w system" where
  "perform env (CallExtract sources) st = snd (extract_phase env sources st)"
| "perform env (CallTransform data rules) st = snd (transform env data rules st)"
| "perform env (CallLoad data mode) st = snd (load env data mode st)"
| "perform env (CallRun sources rules mode) st = snd (run env sources rules mode st)"
| "perform env CallGetExecutionLog st = snd (get_execution_log st)"

definition lifetime :: "('w, 'r, 'l) env \<Rightarrow> 'r call list \<Rightarrow> 'w system \<Rightarrow> 'w system" where
  "lifetime env calls st = fold (perform env) calls st"

section \<open>Sequencing lemmas\<close>

lemma stepsD: "steps R m \<Longrightarrow> m st = (r, st') \<Longrightarrow> R st st'"
  unfolding steps_def by (metis snd_conv)

lemma steps_bindE:
  assumes "transp R" "steps R m" "\<And>x. steps R (f x)"
  shows "steps R (bindE m f)"
  unfolding steps_def
proof
  fix st
  obtain r st1 where m: "m st = (r, st1)" by (cases "m st")
  have R1: "R st st1" using assms(2) m by (rule stepsD)
  show "R st (snd (bindE m f st))"
  proof (cases r)
    case (Inl e)
    then show ?thesis using m R1 by (simp add: bindE_def)
  next
    case (Inr x)
    have "R st1 (snd (f x st1))" using assms(3) by (simp add: steps_def)
    with R1 have "R st (snd (f x st1))" using assms(1) by (blast dest: transpD)
    then show ?thesis using m Inr by (simp add: bindE_def)
  qed
qed

lemma steps_thenE:
  "transp R \<Longrightarrow> steps R m \<Longrightarrow> steps R k \<Longrightarrow> steps R (thenE m k)"
  unfolding thenE_def by (rule steps_bindE)

lemma steps_try_except:
  assumes "transp R" "steps R m" "\<And>e. steps R (h e)"
  shows "steps R (try_except m h)"
  unfolding steps_def
proof
  fix st
  obtain r st1 where m: "m st = (r, st1)" by (cases "m st")
  have R1: "R st st1" using assms(2) m by (rule stepsD)
  show "R st (snd (try_except m h st))"
  proof (cases r)
    case (Inr x)
    then show ?thesis using m R1 by (simp add: try_except_def)
  next
    case (Inl e)
    have "R st1 (snd (h e st1))" using assms(3) by (simp add: steps_def)
    with R1 have "R st (snd (h e st1))" using assms(1) by (blast dest: transpD)
    then show ?thesis using m Inl R1 by (simp add: try_except_def)
  qed
qed

lemma steps_pure:
  "reflp R \<Longrightarrow> steps R (returnE x)"
  "reflp R \<Longrightarrow> steps R (raiseE e)"
  "reflp R \<Longrightarrow> steps R (liftE r)"
  "reflp R \<Longrightarrow> steps R get_config"
  "reflp R \<Longrightarrow> steps R get_execution_log"
  by (simp_all add: steps_def returnE_def raiseE_def liftE_def get_config_def
        get_execution_log_def reflpD)

lemma steps_if: "steps R a \<Longrightarrow> steps R b \<Longrightarrow> steps R (if c then a else b)"
  by simp

lemma inner_refl: "reflp inner"
  by (rule reflpI) (simp add: inner_def)

lemma inner_trans: "transp inner"
proof (rule transpI)
  fix a b c :: "'a system"
  assume "inner a b" "inner b c"
  then show "inner a c" unfolding inner_def by auto
qed

lemma inner_logger_info: "\<not> is_duration m \<Longrightarrow> steps inner (logger_info m)"
  by (simp add: steps_def inner_def logger_info_def)

lemma inner_logger_error: "\<not> is_duration m \<Longrightarrow> steps inner (logger_error m)"
  by (simp add: steps_def inner_def logger_error_def)

lemma inner_collab: "steps inner (collab f)"
  by (simp add: steps_def inner_def collab_def split: prod.splits)

lemma inner_collab_ref: "steps inner (collab_ref k f p)"
  by (simp add: steps_def inner_def collab_ref_def split: prod.splits)

lemma inner_collab_held: "steps inner (collab_held k f)"
  by (simp add: steps_def inner_def collab_held_def collab_ref_def split: prod.splits)

lemma inner_now: "steps inner (now env)"
  by (simp add: steps_def inner_def now_def split: prod.splits)

lemmas inner_pure = steps_pure [OF inner_refl]

lemmas inner_bindE = steps_bindE [OF inner_trans]

lemmas inner_thenE = steps_thenE [OF inner_trans]

lemma inner_extract_csv: "steps inner (extract_csv env S d)"
  unfolding extract_csv_def
  by (intro steps_if inner_bindE inner_thenE inner_pure inner_collab_ref inner_logger_info) simp_all

lemma inner_extract_api: "steps inner (extract_api env S d)"
  unfolding extract_api_def
  by (intro steps_if inner_bindE inner_thenE inner_pure inner_collab_ref inner_logger_info) simp_all

lemma inner_apply_clean: "steps inner (apply_clean env R df)"
  unfolding apply_clean_def
  by (intro steps_if inner_bindE inner_thenE inner_pure inner_collab inner_logger_info) simp_all

lemma steps_case_prod: "(\<And>a b. steps R (f a b)) \<Longrightarrow> steps R (case p of (a, b) \<Rightarrow> f a b)"
  by (cases p) simp

lemma inner_apply_validate: "steps inner (apply_validate env R df)"
  unfolding apply_validate_def
  by (intro steps_if inner_bindE inner_thenE inner_pure inner_collab inner_logger_info
        steps_case_prod) simp_all

lemma inner_transform_items: "steps inner (transform_items env R items td)"
proof (induction items arbitrary: td)
  case Nil
  show ?case by (simp add: inner_pure)
next
  case (Cons a items)
  obtain source df where a: "a = (source, df)" by (cases a)
  show ?case unfolding a transform_items.simps
    by (intro inner_bindE inner_thenE inner_logger_info inner_apply_clean inner_apply_validate
          Cons.IH) simp
qed

lemma inner_load_items: "steps inner (load_items env l mode items acc)"
proof (induction items arbitrary: acc)
  case Nil
  show ?case by (simp add: inner_pure)
next
  case (Cons a items)
  obtain source df where a: "a = (source, df)" by (cases a)
  show ?case unfolding a load_items.simps
    by (intro inner_bindE inner_thenE inner_logger_info inner_collab_held Cons.IH) simp_all
qed

text \<open>The wrapper every phase puts around its body.\<close>

lemma phase_wrapper:
  assumes body: "steps inner body"
    and nd: "\<not> is_duration start" "\<And>s. \<not> is_duration (failed s)"
    and run: "thenE (logger_info start)
       (try_except
          (bindE body (\<lambda>x. bindE (now env) (\<lambda>t.
             thenE (append_log \<lparr>fase = p, status = ''success'', timestamp = t,
                                records = Some (cnt x), error = None\<rparr>) (returnE (ret x)))))
          (\<lambda>e. thenE (logger_error (failed (exc_str e)))
             (bindE (now env) (\<lambda>t.
                thenE (append_log \<lparr>fase = p, status = ''error'', timestamp = t,
                                   records = None, error = Some (exc_str e)\<rparr>) (raiseE e)))))
       st = (r, st')"
  shows "(case r of Inl e \<Rightarrow> logged p (Inl e) st st' \<and> (\<exists>st2. body (st\<lparr>logger := logger st @ [(INFO, start)]\<rparr>) = (Inl e, st2))
         | Inr y \<Rightarrow> \<exists>x st2. body (st\<lparr>logger := logger st @ [(INFO, start)]\<rparr>) = (Inr x, st2) \<and> y = ret x \<and> logged p (Inr (cnt x)) st st')"
proof -
  define st1 where "st1 = st\<lparr>logger := logger st @ [(INFO, start)]\<rparr>"
  obtain r1 st2 where b: "body st1 = (r1, st2)" by (cases "body st1")
  have i: "inner st1 st2" using body b by (rule stepsD)
  obtain t w' where n: "datetime_now env (world st2) = (t, w')" by (cases "datetime_now env (world st2)")
  show ?thesis
  proof (cases r1)
    case (Inl e)
    show ?thesis
    proof (cases "is_Exception e")
      case True
      with Inl show ?thesis using run b i n nd unfolding st1_def [symmetric]
        by (auto simp: thenE_def bindE_def try_except_def logger_info_def logger_error_def
            now_def append_log_def raiseE_def returnE_def logged_def inner_def phase_entries_def
            outcome_entry_def
            st1_def)
    next
      case False
      with Inl show ?thesis using run b i n nd unfolding st1_def [symmetric]
        by (auto simp: thenE_def bindE_def try_except_def logger_info_def logged_def inner_def
            phase_entries_def st1_def)
    qed
  next
    case (Inr x)
    then show ?thesis using run b i n nd unfolding st1_def [symmetric]
      by (auto simp: thenE_def bindE_def try_except_def logger_info_def logger_error_def
          now_def append_log_def raiseE_def returnE_def logged_def inner_def phase_entries_def
            outcome_entry_def
          st1_def)
  qed
qed

lemma bindE_assoc: "bindE (bindE m f) g = bindE m (\<lambda>x. bindE (f x) g)"
  by (rule ext) (simp add: bindE_def split: prod.splits sum.splits)

lemma bindE_thenE: "bindE (thenE m k) g = thenE m (bindE k g)"
  by (simp add: thenE_def bindE_assoc)

lemma bindE_returnE: "bindE (returnE x) f = f x"
  by (rule ext) (simp add: bindE_def returnE_def)

lemma append_log_unit: "append_log en = thenE (append_log en) (returnE ())"
  by (rule ext) (simp add: thenE_def bindE_def append_log_def returnE_def)

lemma inner_extract_body: "steps inner (extract_body env S)"
  unfolding extract_body_def by (intro inner_bindE inner_extract_csv inner_extract_api)

lemma inner_load_body: "steps inner (load_body env data mode)"
  unfolding load_body_def
  by (intro inner_bindE inner_thenE inner_pure inner_collab_ref inner_load_items inner_logger_info)
    simp

lemma extract_phase_outcome:
  assumes "extract_phase env S st = (r, st')"
  shows "case r of
           Inl e \<Rightarrow> logged ''extract'' (Inl e) st st' \<and>
             (\<exists>st2. extract_body env S (st\<lparr>logger := logger st @ [(INFO, ExtractPhaseStart)]\<rparr>) = (Inl e, st2))
         | Inr d \<Rightarrow> logged ''extract'' (Inr (total_len d)) st st' \<and>
             (\<exists>st2. extract_body env S (st\<lparr>logger := logger st @ [(INFO, ExtractPhaseStart)]\<rparr>) = (Inr d, st2))"
proof -
  have "(case r of Inl e \<Rightarrow> logged ''extract'' (Inl e) st st' \<and> (\<exists>st2. extract_body env S (st\<lparr>logger := logger st @ [(INFO, ExtractPhaseStart)]\<rparr>) = (Inl e, st2))
         | Inr y \<Rightarrow> \<exists>x st2. extract_body env S (st\<lparr>logger := logger st @ [(INFO, ExtractPhaseStart)]\<rparr>) = (Inr x, st2) \<and> y = id x \<and> logged ''extract'' (Inr (total_len x)) st st')"
    by (rule phase_wrapper [where failed = ExtractFailed and env = env, OF inner_extract_body])
      (use assms in \<open>simp_all add: extract_phase_def extract_body_def bindE_assoc\<close>)
  then show ?thesis by (auto split: sum.splits)
qed

lemma transform_outcome:
  assumes "transform env data R st = (r, st')"
  shows "case r of
           Inl e \<Rightarrow> logged ''transform'' (Inl e) st st' \<and>
             (\<exists>st2. transform_items env R data [] (st\<lparr>logger := logger st @ [(INFO, TransformPhaseStart)]\<rparr>) = (Inl e, st2))
         | Inr d \<Rightarrow> logged ''transform'' (Inr (total_len d)) st st' \<and>
             (\<exists>st2. transform_items env R data [] (st\<lparr>logger := logger st @ [(INFO, TransformPhaseStart)]\<rparr>) = (Inr d, st2))"
proof -
  have "(case r of Inl e \<Rightarrow> logged ''transform'' (Inl e) st st' \<and> (\<exists>st2. transform_items env R data [] (st\<lparr>logger := logger st @ [(INFO, TransformPhaseStart)]\<rparr>) = (Inl e, st2))
         | Inr y \<Rightarrow> \<exists>x st2. transform_items env R data [] (st\<lparr>logger := logger st @ [(INFO, TransformPhaseStart)]\<rparr>) = (Inr x, st2) \<and> y = id x \<and> logged ''transform'' (Inr (total_len x)) st st')"
    by (rule phase_wrapper [where failed = TransformFailed and env = env, OF inner_transform_items])
      (use assms in \<open>simp_all add: transform_def\<close>)
  then show ?thesis by (auto split: sum.splits)
qed

lemma load_outcome:
  assumes "load env data mode st = (r, st')"
  shows "case r of
           Inl e \<Rightarrow> logged ''load'' (Inl e) st st' \<and>
             (\<exists>st2. load_body env data mode (st\<lparr>logger := logger st @ [(INFO, LoadPhaseStart)]\<rparr>) = (Inl e, st2))
         | Inr u \<Rightarrow> \<exists>n st2. logged ''load'' (Inr n) st st' \<and>
             load_body env data mode (st\<lparr>logger := logger st @ [(INFO, LoadPhaseStart)]\<rparr>) = (Inr n, st2)"
proof -
  have eq: "load env data mode = thenE (logger_info LoadPhaseStart)
       (try_except
          (bindE (load_body env data mode) (\<lambda>x. bindE (now env) (\<lambda>t.
             thenE (append_log \<lparr>fase = ''load'', status = ''success'', timestamp = t,
                                records = Some (id x), error = None\<rparr>) (returnE ((\<lambda>_. ()) x)))))
          (\<lambda>e. thenE (logger_error (LoadFailed (exc_str e)))
             (bindE (now env) (\<lambda>t.
                thenE (append_log \<lparr>fase = ''load'', status = ''error'', timestamp = t,
                                   records = None, error = Some (exc_str e)\<rparr>) (raiseE e)))))"
    unfolding load_def load_body_def bindE_assoc bindE_thenE bindE_returnE id_apply
    by (subst (1) append_log_unit) (rule refl)
  have "(case r of Inl e \<Rightarrow> logged ''load'' (Inl e) st st' \<and> (\<exists>st2. load_body env data mode (st\<lparr>logger := logger st @ [(INFO, LoadPhaseStart)]\<rparr>) = (Inl e, st2))
         | Inr y \<Rightarrow> \<exists>x st2. load_body env data mode (st\<lparr>logger := logger st @ [(INFO, LoadPhaseStart)]\<rparr>) = (Inr x, st2) \<and> y = (\<lambda>_. ()) x \<and> logged ''load'' (Inr (id x)) st st')"
    by (rule phase_wrapper [where failed = LoadFailed and env = env, OF inner_load_body])
      (use assms in \<open>simp_all add: eq\<close>)
  then show ?thesis by (auto split: sum.splits)
qed

section \<open>What a phase call leaves in the execution log\<close>

lemma logs_outcome_map_sum: "logs_outcome (map_sum id f r) = logs_outcome r"
  by (cases r) (simp_all add: logs_outcome_def)

lemma logged_entry:
  assumes "logged p r st st'"
  shows "(logs_outcome r \<longrightarrow>
            (\<exists>en. execution_log st' = execution_log st @ [en] \<and> fase en = p \<and>
               well_formed_entry en \<and> (status en = ''success'') = (\<not> isl r))) \<and>
         (\<not> logs_outcome r \<longrightarrow> execution_log st' = execution_log st)"
proof -
  from assms obtain t where t: "execution_log st' = execution_log st @ phase_entries p t r"
    unfolding logged_def by blast
  have "fase (outcome_entry p t r) = p" "well_formed_entry (outcome_entry p t r)"
    "(status (outcome_entry p t r) = ''success'') = (\<not> isl r)"
    by (cases r; simp add: outcome_entry_def well_formed_entry_def)+
  moreover have "logs_outcome r \<Longrightarrow> phase_entries p t r = [outcome_entry p t r]"
    "\<not> logs_outcome r \<Longrightarrow> phase_entries p t r = []"
    by (cases r; simp add: phase_entries_def logs_outcome_def)+
  ultimately show ?thesis using t by auto
qed

lemma extract_phase_logged:
  "logged ''extract'' (map_sum id total_len (fst (extract_phase env S st))) st
     (snd (extract_phase env S st))"
  using extract_phase_outcome [of env S st "fst (extract_phase env S st)" "snd (extract_phase env S st)"]
  by (auto split: sum.splits)

lemma transform_logged:
  "logged ''transform'' (map_sum id total_len (fst (transform env data R st))) st
     (snd (transform env data R st))"
  using transform_outcome [of env data R st "fst (transform env data R st)" "snd (transform env data R st)"]
  by (auto split: sum.splits)

lemma load_logged:
  "\<exists>r. map_sum id (\<lambda>n. ()) r = fst (load env data mode st) \<and>
     logged ''load'' r st (snd (load env data mode st))"
proof -
  obtain r st' where l: "load env data mode st = (r, st')" by (cases "load env data mode st")
  show ?thesis
  proof (cases r)
    case (Inl e)
    with load_outcome [OF l] have "logged ''load'' (Inl e) st st'" by simp
    with Inl l show ?thesis by (intro exI [of _ "Inl e"]) simp
  next
    case (Inr u)
    with load_outcome [OF l] obtain n where "logged ''load'' (Inr n) st st'" by auto
    with Inr l show ?thesis by (intro exI [of _ "Inr n"]) simp
  qed
qed

lemmas action_defs = bindE_def thenE_def try_except_def returnE_def raiseE_def liftE_def
  get_config_def logger_info_def logger_error_def append_log_def collab_def collab_ref_def
  collab_held_def now_def

lemmas exec_defs = sample_env_def sample_state_def sample_config_def failing_env_def
  interrupted_env_def negative_env_def mutating_env_def
  extract_phase_def extract_csv_def extract_api_def transform_def apply_clean_def
  apply_validate_def load_def run_def run_phases_def store_back_def held_def total_len_def
  action_defs

section \<open>The outcomes of run\<close>

lemma run_prologue_inner: "inner st (run_prologue env st)"
  by (simp add: inner_def run_prologue_def split: prod.splits)

text \<open>What the handler of \<open>run\<close> adds when a phase raised \<open>e\<close>.\<close>

lemma run_unfold:
  "run env S R m st =
     (case extract_phase env S (run_prologue env st) of
        (Inl e, st1) \<Rightarrow>
          (Inl e, if is_Exception e then st1\<lparr>logger := logger st1 @
             [(ERROR, Banner), (ERROR, PipelineFailed (exc_str e)), (ERROR, Banner)]\<rparr> else st1)
      | (Inr d, st1) \<Rightarrow>
          (case transform env d R st1 of
             (Inl e, st2) \<Rightarrow>
               (Inl e, if is_Exception e then st2\<lparr>logger := logger st2 @
                  [(ERROR, Banner), (ERROR, PipelineFailed (exc_str e)), (ERROR, Banner)]\<rparr> else st2)
           | (Inr td, st2) \<Rightarrow>
               (case load env td m st2 of
                  (Inl e, st3) \<Rightarrow>
                    (Inl e, if is_Exception e then st3\<lparr>logger := logger st3 @
                       [(ERROR, Banner), (ERROR, PipelineFailed (exc_str e)), (ERROR, Banner)]\<rparr>
                     else st3)
                | (Inr u, st3) \<Rightarrow>
                    (Inr (), st3\<lparr>world := snd (datetime_now env (world st3)),
                       logger := logger st3 @
                         [(INFO, Banner), (INFO, PipelineSucceeded),
                          (INFO, ExecutionTime (fst (datetime_now env (world st3))
                                                - fst (datetime_now env (world st)))),
                          (INFO, Banner)]\<rparr>))))"
  by (simp add: run_def run_phases_def run_prologue_def bindE_def thenE_def try_except_def
      now_def logger_info_def logger_error_def raiseE_def
      split: prod.splits sum.splits)

lemma inner_logged: "inner a b \<Longrightarrow> logged p r b c \<Longrightarrow> logged p r a c"
  unfolding inner_def logged_def by auto

lemma logged_log: "logged p r a b \<Longrightarrow> \<exists>t. execution_log b = execution_log a @ phase_entries p t r"
  unfolding logged_def by blast

lemma logged_lines:
  "logged p r a b \<Longrightarrow> \<exists>new. logger b = logger a @ new \<and> (\<forall>x\<in>set new. \<not> is_duration (snd x))"
  unfolding logged_def by blast

lemma inner_lines:
  "inner a b \<Longrightarrow> \<exists>new. logger b = logger a @ new \<and> (\<forall>x\<in>set new. \<not> is_duration (snd x))"
  unfolding inner_def by blast

lemma run_cases [case_names extract_fails transform_fails load_fails success]:
  fixes env :: "('w, 'r, 'l) env"
  obtains
    e t1 new where
      "failing_phase env S R m (run_prologue env st) = Some (''extract'', e)"
      "fst (run env S R m st) = Inl e"
      "execution_log (snd (run env S R m st)) = execution_log st @ phase_entries ''extract'' t1 (Inl e)"
      "logger (snd (run env S R m st)) = logger st @ new" "\<forall>x\<in>set new. \<not> is_duration (snd x)"
  | e t1 n1 t2 new where
      "failing_phase env S R m (run_prologue env st) = Some (''transform'', e)"
      "fst (run env S R m st) = Inl e"
      "execution_log (snd (run env S R m st)) =
         execution_log st @ [outcome_entry ''extract'' t1 (Inr n1)] @ phase_entries ''transform'' t2 (Inl e)"
      "logger (snd (run env S R m st)) = logger st @ new" "\<forall>x\<in>set new. \<not> is_duration (snd x)"
  | e t1 n1 t2 n2 t3 new where
      "failing_phase env S R m (run_prologue env st) = Some (''load'', e)"
      "fst (run env S R m st) = Inl e"
      "execution_log (snd (run env S R m st)) =
         execution_log st @ [outcome_entry ''extract'' t1 (Inr n1), outcome_entry ''transform'' t2 (Inr n2)]
           @ phase_entries ''load'' t3 (Inl e)"
      "logger (snd (run env S R m st)) = logger st @ new" "\<forall>x\<in>set new. \<not> is_duration (snd x)"
  | t1 d t2 td t3 n3 sa sb new dur where
      "failing_phase env S R m (run_prologue env st) = None"
      "fst (run env S R m st) = Inr ()"
      "execution_log (snd (run env S R m st)) =
         execution_log st @ [outcome_entry ''extract'' t1 (Inr (total_len (d :: (string \<times> 'r list) list))),
                             outcome_entry ''transform'' t2 (Inr (total_len (td :: (string \<times> 'r list) list))),
                             outcome_entry ''load'' t3 (Inr n3)]"
      "load_body env td m sa = (Inr n3, sb)"
      "logger (snd (run env S R m st)) = logger st @ new @ [(INFO, ExecutionTime dur), (INFO, Banner)]"
      "\<forall>x\<in>set new. \<not> is_duration (snd x)"
proof -
  define st0 where "st0 = run_prologue env st"
  have i0: "inner st st0" unfolding st0_def by (rule run_prologue_inner)
  obtain r1 st1 where x: "extract_phase env S st0 = (r1, st1)" by (cases "extract_phase env S st0")
  note xo = extract_phase_outcome [OF x]
  show ?thesis
  proof (cases r1)
    case (Inl e)
    with xo have l: "logged ''extract'' (Inl e) st st1" using i0 by (auto intro: inner_logged)
    from logged_log [OF l] obtain t1 where
      t1: "execution_log st1 = execution_log st @ phase_entries ''extract'' t1 (Inl e)" by blast
    from logged_lines [OF l] obtain new where
      n: "logger st1 = logger st @ new" "\<forall>x\<in>set new. \<not> is_duration (snd x)" by blast
    show ?thesis
      by (rule that(1) [of e t1 "new @ (if is_Exception e
              then [(ERROR, Banner), (ERROR, PipelineFailed (exc_str e)), (ERROR, Banner)] else [])"])
        (use x Inl t1 n in \<open>auto simp: run_unfold failing_phase_def ball_Un st0_def [symmetric]\<close>)
  next
    case (Inr d)
    with xo have l1: "logged ''extract'' (Inr (total_len d)) st st1" using i0
      by (auto intro: inner_logged)
    from logged_log [OF l1] obtain t1 where
      t1: "execution_log st1 = execution_log st @ [outcome_entry ''extract'' t1 (Inr (total_len d))]"
      by (auto simp: phase_entries_def)
    from logged_lines [OF l1] obtain new1 where
      n1: "logger st1 = logger st @ new1" "\<forall>x\<in>set new1. \<not> is_duration (snd x)" by blast
    obtain r2 st2 where y: "transform env d R st1 = (r2, st2)" by (cases "transform env d R st1")
    note yo = transform_outcome [OF y]
    show ?thesis
    proof (cases r2)
      case (Inl e)
      with yo have l: "logged ''transform'' (Inl e) st1 st2" by simp
      from logged_log [OF l] obtain t2 where
        t2: "execution_log st2 = execution_log st1 @ phase_entries ''transform'' t2 (Inl e)" by blast
      from logged_lines [OF l] obtain new2 where
        n2: "logger st2 = logger st1 @ new2" "\<forall>x\<in>set new2. \<not> is_duration (snd x)" by blast
      show ?thesis
        by (rule that(2) [of e t1 "total_len d" t2
              "new1 @ new2 @ (if is_Exception e
                 then [(ERROR, Banner), (ERROR, PipelineFailed (exc_str e)), (ERROR, Banner)] else [])"])
          (use x y \<open>r1 = Inr d\<close> Inl t1 t2 n1 n2 in
            \<open>auto simp: run_unfold failing_phase_def ball_Un st0_def [symmetric]\<close>)
    next
      case (Inr td)
      with yo have l2: "logged ''transform'' (Inr (total_len td)) st1 st2" by simp
      from logged_log [OF l2] obtain t2 where
        t2: "execution_log st2 = execution_log st1 @ [outcome_entry ''transform'' t2 (Inr (total_len td))]"
        by (auto simp: phase_entries_def)
      from logged_lines [OF l2] obtain new2 where
        n2: "logger st2 = logger st1 @ new2" "\<forall>x\<in>set new2. \<not> is_duration (snd x)" by blast
      obtain r3 st3 where z: "load env td m st2 = (r3, st3)" by (cases "load env td m st2")
      note zo = load_outcome [OF z]
      show ?thesis
      proof (cases r3)
        case (Inl e)
        with zo have l: "logged ''load'' (Inl e) st2 st3" by simp
        from logged_log [OF l] obtain t3 where
          t3: "execution_log st3 = execution_log st2 @ phase_entries ''load'' t3 (Inl e)" by blast
        from logged_lines [OF l] obtain new3 where
          n3: "logger st3 = logger st2 @ new3" "\<forall>x\<in>set new3. \<not> is_duration (snd x)" by blast
        show ?thesis
          by (rule that(3) [of e t1 "total_len d" t2 "total_len td" t3
                "new1 @ new2 @ new3 @ (if is_Exception e
                   then [(ERROR, Banner), (ERROR, PipelineFailed (exc_str e)), (ERROR, Banner)] else [])"])
            (use x y z \<open>r1 = Inr d\<close> \<open>r2 = Inr td\<close> Inl t1 t2 t3 n1 n2 n3 in
              \<open>auto simp: run_unfold failing_phase_def ball_Un st0_def [symmetric]\<close>)
      next
        case (Inr u)
        with zo obtain n sb where l: "logged ''load'' (Inr n) st2 st3"
          and lb: "load_body env td m (st2\<lparr>logger := logger st2 @ [(INFO, LoadPhaseStart)]\<rparr>) = (Inr n, sb)"
          by auto
        from logged_log [OF l] obtain t3 where
          t3: "execution_log st3 = execution_log st2 @ [outcome_entry ''load'' t3 (Inr n)]"
          by (auto simp: phase_entries_def)
        from logged_lines [OF l] obtain new3 where
          n3: "logger st3 = logger st2 @ new3" "\<forall>x\<in>set new3. \<not> is_duration (snd x)" by blast
        show ?thesis
          by (rule that(4) [of t1 d t2 td t3 n _ sb
                "new1 @ new2 @ new3 @ [(INFO, Banner), (INFO, PipelineSucceeded)]"
                "fst (datetime_now env (world st3)) - fst (datetime_now env (world st))", OF _ _ _ lb])
            (use x y z \<open>r1 = Inr d\<close> \<open>r2 = Inr td\<close> Inr t1 t2 t3 n1 n2 n3 in
              \<open>auto simp: run_unfold failing_phase_def ball_Un st0_def [symmetric]\<close>)
      qed
    qed
  qed
qed

lemma outcome_entry_simps:
  "fase (outcome_entry p t r) = p"
  "status (outcome_entry p t (Inl e)) = ''error''"
  "status (outcome_entry p t (Inr n)) = ''success''"
  "error (outcome_entry p t (Inl e)) = Some (exc_str e)"
  "error (outcome_entry p t (Inr n)) = None"
  "records (outcome_entry p t (Inl e)) = None"
  "records (outcome_entry p t (Inr n)) = Some n"
  by (simp_all add: outcome_entry_def split: sum.splits)

lemma phases_after_simps:
  "phases_after ''extract'' = [''transform'', ''load'']"
  "phases_after ''transform'' = [''load'']"
  "phases_after ''load'' = []"
  by (simp_all add: phases_after_def phase_order_def)






section \<open>Extract and transform in detail\<close>

lemma map_of_setitem:
  "map_of (setitem kvs k v) k' = (if k' = k then Some v else map_of kvs k')"
  by (induction kvs) auto

lemma setitem_same: "map_of kvs k = Some v \<Longrightarrow> setitem kvs k v = kvs"
  by (induction kvs) auto

lemma dict_get_store_back:
  "k' \<noteq> k \<Longrightarrow> dict_get (store_back k p p' (PDict kvs)) k' = dict_get (PDict kvs) k'"
  by (simp add: store_back_def map_of_setitem split: option.splits)

lemma store_back_PDict: "\<exists>kvs'. store_back k p p' (PDict kvs) = PDict kvs'"
  by (simp add: store_back_def split: option.splits)

lemma extract_phase_unfold:
  "extract_phase env S st =
     (case extract_body env S (st\<lparr>logger := logger st @ [(INFO, ExtractPhaseStart)]\<rparr>) of
        (Inl e, st2) \<Rightarrow>
          (if is_Exception e then
             (Inl e, st2\<lparr>logger := logger st2 @ [(ERROR, ExtractFailed (exc_str e))],
                        world := snd (datetime_now env (world st2)),
                        execution_log := execution_log st2 @
                          [\<lparr>fase = ''extract'', status = ''error'',
                            timestamp = fst (datetime_now env (world st2)),
                            records = None, error = Some (exc_str e)\<rparr>]\<rparr>)
           else (Inl e, st2))
      | (Inr d, st2) \<Rightarrow>
          (Inr d, st2\<lparr>world := snd (datetime_now env (world st2)),
                     execution_log := execution_log st2 @
                       [\<lparr>fase = ''extract'', status = ''success'',
                         timestamp = fst (datetime_now env (world st2)),
                         records = Some (total_len d), error = None\<rparr>]\<rparr>))"
  unfolding extract_phase_def extract_body_def
  by (simp add: action_defs split: prod.splits sum.splits)

lemma extract_csv_unfold:
  "extract_csv env S d st =
     (if ''csv'' \<in> set S then
        (case dict_get (config st) ''csv_path'' of
           Inl e \<Rightarrow> (Inl e, st\<lparr>logger := logger st @ [(INFO, ExtractingCsv)]\<rparr>)
         | Inr p \<Rightarrow>
             (case csv_extractor env p (world st) of
                (Inl e, p', w1) \<Rightarrow>
                  (Inl e, st\<lparr>logger := logger st @ [(INFO, ExtractingCsv)], world := w1,
                             config := store_back ''csv_path'' p p' (config st)\<rparr>)
              | (Inr df, p', w1) \<Rightarrow>
                  (Inr (setitem d ''csv'' df),
                   st\<lparr>logger := logger st @ [(INFO, ExtractingCsv), (INFO, CsvExtracted (length df))],
                      world := w1, config := store_back ''csv_path'' p p' (config st)\<rparr>)))
      else (Inr d, st))"
  unfolding extract_csv_def by (simp add: action_defs split: prod.splits sum.splits)

lemma extract_api_unfold:
  "extract_api env S d st =
     (if ''api'' \<in> set S then
        (case dict_get (config st) ''api_url'' of
           Inl e \<Rightarrow> (Inl e, st\<lparr>logger := logger st @ [(INFO, ExtractingApi)]\<rparr>)
         | Inr u \<Rightarrow>
             (case api_extractor env u (world st) of
                (Inl e, u', w1) \<Rightarrow>
                  (Inl e, st\<lparr>logger := logger st @ [(INFO, ExtractingApi)], world := w1,
                             config := store_back ''api_url'' u u' (config st)\<rparr>)
              | (Inr df, u', w1) \<Rightarrow>
                  (Inr (setitem d ''api'' df),
                   st\<lparr>logger := logger st @ [(INFO, ExtractingApi), (INFO, ApiExtracted (length df))],
                      world := w1, config := store_back ''api_url'' u u' (config st)\<rparr>)))
      else (Inr d, st))"
  unfolding extract_api_def by (simp add: action_defs split: prod.splits sum.splits)

lemma map_fst_setitem:
  "map fst (setitem kvs k v) = (if k \<in> fst ` set kvs then map fst kvs else map fst kvs @ [k])"
proof (induction kvs)
  case Nil
  show ?case by simp
next
  case (Cons a kvs)
  obtain k' v' where a: "a = (k', v')" by (cases a)
  show ?case using Cons.IH by (cases "k' = k") (simp_all add: a)
qed

lemma extract_body_keys:
  assumes "extract_body env S st = (Inr d, st')"
  shows "map fst d = filter (\<lambda>k. k \<in> set S) [''csv'', ''api'']"
proof -
  from assms obtain d1 st1 where 1: "extract_csv env S [] st = (Inr d1, st1)"
    and 2: "extract_api env S d1 st1 = (Inr d, st')"
    by (auto simp: extract_body_def bindE_def split: sum.splits prod.splits)
  from 1 have a: "map fst d1 = (if ''csv'' \<in> set S then [''csv''] else [])"
    by (auto simp: extract_csv_unfold split: if_splits sum.splits prod.splits)
  from 2 have "map fst d = (if ''api'' \<in> set S then map fst d1 @ [''api''] else map fst d1)"
  proof (cases "''api'' \<in> set S")
    case True
    with 2 obtain df where "d = setitem d1 ''api'' df"
      by (auto simp: extract_api_unfold split: sum.splits prod.splits)
    moreover have "''api'' \<notin> fst ` set d1"
    proof
      assume "''api'' \<in> fst ` set d1"
      then have "''api'' \<in> set (map fst d1)" by simp
      with a show False by (simp split: if_splits)
    qed
    ultimately show ?thesis using True by (simp add: map_fst_setitem)
  next
    case False
    with 2 show ?thesis by (simp add: extract_api_unfold)
  qed
  with a show ?thesis by simp
qed

lemma extract_phase_keys:
  assumes "extract_phase env S st = (Inr d, st')"
  shows "map fst d = filter (\<lambda>k. k \<in> set S) [''csv'', ''api'']"
  using extract_phase_outcome [OF assms] by (auto dest: extract_body_keys)

lemma extract_csv_cong: "set S1 = set S2 \<Longrightarrow> extract_csv env S1 = extract_csv env S2"
  by (simp add: extract_csv_def fun_eq_iff)

lemma extract_api_cong: "set S1 = set S2 \<Longrightarrow> extract_api env S1 = extract_api env S2"
  by (simp add: extract_api_def fun_eq_iff)

lemma extract_phase_cong: "set S1 = set S2 \<Longrightarrow> extract_phase env S1 = extract_phase env S2"
  unfolding extract_phase_def by (simp add: extract_csv_cong [of S1 S2] extract_api_cong [of S1 S2])

lemma extract_phase_recognized:
  "extract_phase env S = extract_phase env (filter (\<lambda>s. s = ''csv'' \<or> s = ''api'') S)"
  unfolding extract_phase_def extract_csv_def extract_api_def by simp

lemma extract_csv_succeeds:
  assumes "config st = PDict kvs" "\<forall>p w. \<not> isl (fst (csv_extractor env p w))"
  shows "\<exists>d' st' kvs'. extract_csv env S d st = (Inr d', st') \<and> config st' = PDict kvs'"
proof -
  let ?p = "case map_of kvs ''csv_path'' of None \<Rightarrow> PNone | Some v \<Rightarrow> v"
  obtain r p' w1 where x: "csv_extractor env ?p (world st) = (r, p', w1)"
    by (cases "csv_extractor env ?p (world st)") auto
  with assms(2) obtain df where "r = Inr df" by (metis fst_conv sum.collapse(2))
  with x assms(1) store_back_PDict [of "''csv_path''" ?p p' kvs] show ?thesis
    by (auto simp: extract_csv_unfold)
qed

lemma extract_api_succeeds:
  assumes "config st = PDict kvs" "\<forall>p w. \<not> isl (fst (api_extractor env p w))"
  shows "\<exists>d' st'. extract_api env S d st = (Inr d', st')"
proof -
  let ?p = "case map_of kvs ''api_url'' of None \<Rightarrow> PNone | Some v \<Rightarrow> v"
  obtain r p' w1 where x: "api_extractor env ?p (world st) = (r, p', w1)"
    by (cases "api_extractor env ?p (world st)") auto
  with assms(2) obtain df where "r = Inr df" by (metis fst_conv sum.collapse(2))
  with x assms(1) show ?thesis by (auto simp: extract_api_unfold)
qed

lemma extract_body_succeeds:
  assumes "config st = PDict kvs"
    and "\<forall>p w. \<not> isl (fst (csv_extractor env p w))"
    and "\<forall>u w. \<not> isl (fst (api_extractor env u w))"
  shows "\<not> isl (fst (extract_body env S st))"
proof -
  from extract_csv_succeeds [OF assms(1,2), of S "[]"] obtain d1 st1 kvs1 where
    1: "extract_csv env S [] st = (Inr d1, st1)" "config st1 = PDict kvs1" by blast
  from extract_api_succeeds [OF 1(2) assms(3), of S d1] obtain d2 st2 where
    2: "extract_api env S d1 st1 = (Inr d2, st2)" by blast
  from 1(1) 2 show ?thesis by (simp add: extract_body_def bindE_def)
qed

lemma extract_phase_isl:
  "isl (fst (extract_phase env S st)) =
     isl (fst (extract_body env S (st\<lparr>logger := logger st @ [(INFO, ExtractPhaseStart)]\<rparr>)))"
  using extract_phase_outcome [of env S st "fst (extract_phase env S st)" "snd (extract_phase env S st)"]
  by (auto split: sum.splits)

lemma apply_clean_cong: "set R1 = set R2 \<Longrightarrow> apply_clean env R1 = apply_clean env R2"
  by (simp add: apply_clean_def fun_eq_iff)

lemma apply_validate_cong: "set R1 = set R2 \<Longrightarrow> apply_validate env R1 = apply_validate env R2"
  by (simp add: apply_validate_def fun_eq_iff)

lemma transform_items_cong:
  assumes "set R1 = set R2"
  shows "transform_items env R1 items td = transform_items env R2 items td"
proof (induction items arbitrary: td)
  case Nil
  show ?case by simp
next
  case (Cons a items)
  obtain source df where a: "a = (source, df)" by (cases a)
  show ?case
    by (simp add: a Cons.IH apply_clean_cong [OF assms] apply_validate_cong [OF assms])
qed

lemma transform_cong: "set R1 = set R2 \<Longrightarrow> transform env data R1 = transform env data R2"
  unfolding transform_def by (simp add: transform_items_cong [of R1 R2])

lemma extractor_visits_append:
  "extractor_visits (a @ b) = extractor_visits a @ extractor_visits b"
  by (simp add: extractor_visits_def)

lemma extractor_visits_Cons:
  "extractor_visits (x # xs) =
     (if snd x = ExtractingCsv \<or> snd x = ExtractingApi then [snd x] else []) @ extractor_visits xs"
  by (simp add: extractor_visits_def)

lemma extractor_visits_Nil: "extractor_visits [] = []"
  by (simp add: extractor_visits_def)

lemma extract_csv_visits:
  "\<exists>new. logger (snd (extract_csv env S d st)) = logger st @ new \<and>
     extractor_visits new = (if ''csv'' \<in> set S then [ExtractingCsv] else [])"
  by (simp add: extract_csv_unfold extractor_visits_def split: sum.splits prod.splits)

lemma extract_api_visits:
  "\<exists>new. logger (snd (extract_api env S d st)) = logger st @ new \<and>
     extractor_visits new = (if ''api'' \<in> set S then [ExtractingApi] else [])"
  by (simp add: extract_api_unfold extractor_visits_def split: sum.splits prod.splits)

lemma extract_phase_visits:
  "extractor_visits (new_lines st (snd (extract_phase env S st))) =
     (if ''csv'' \<in> set S then [ExtractingCsv] else []) @
     (if ''api'' \<in> set S \<and> \<not> isl (fst (extract_csv env S []
            (st\<lparr>logger := logger st @ [(INFO, ExtractPhaseStart)]\<rparr>)))
      then [ExtractingApi] else [])"
proof -
  define st1 where "st1 = st\<lparr>logger := logger st @ [(INFO, ExtractPhaseStart)]\<rparr>"
  obtain r1 st2 where csv: "extract_csv env S [] st1 = (r1, st2)"
    by (cases "extract_csv env S [] st1")
  from extract_csv_visits [of env S "[]" st1] csv obtain new1 where
    n1: "logger st2 = logger st1 @ new1"
      "extractor_visits new1 = (if ''csv'' \<in> set S then [ExtractingCsv] else [])" by auto
  have l1: "logger st1 = logger st @ [(INFO, ExtractPhaseStart)]" by (simp add: st1_def)
  have v0: "extractor_visits [(INFO, ExtractPhaseStart)] = []"
    "\<And>s. extractor_visits [(ERROR, ExtractFailed s)] = []"
    by (simp_all add: extractor_visits_def)
  show ?thesis
  proof (cases r1)
    case (Inl e)
    with csv have b: "extract_body env S st1 = (Inl e, st2)"
      by (simp add: extract_body_def bindE_def)
    have "\<exists>tl. new_lines st (snd (extract_phase env S st)) =
        [(INFO, ExtractPhaseStart)] @ new1 @ tl \<and> extractor_visits tl = []"
      by (simp add: extract_phase_unfold st1_def [symmetric] b new_lines_def n1 l1 v0
          extractor_visits_def)
    then show ?thesis
      using csv Inl n1(2)
      by (auto simp: extractor_visits_append extractor_visits_Cons extractor_visits_Nil v0
          st1_def [symmetric])
  next
    case (Inr d)
    obtain r2 st3 where api: "extract_api env S d st2 = (r2, st3)"
      by (cases "extract_api env S d st2")
    from extract_api_visits [of env S d st2] api obtain new2 where
      n2: "logger st3 = logger st2 @ new2"
        "extractor_visits new2 = (if ''api'' \<in> set S then [ExtractingApi] else [])" by auto
    from csv Inr api have b: "extract_body env S st1 = (r2, st3)"
      by (simp add: extract_body_def bindE_def)
    have "\<exists>tl. new_lines st (snd (extract_phase env S st)) =
        [(INFO, ExtractPhaseStart)] @ new1 @ new2 @ tl \<and> extractor_visits tl = []"
      by (cases r2) (simp_all add: extract_phase_unfold st1_def [symmetric] b new_lines_def n1 n2 l1 v0
          extractor_visits_def)
    then show ?thesis
      using csv Inr n1(2) n2(2)
      by (auto simp: extractor_visits_append extractor_visits_Cons extractor_visits_Nil v0
          st1_def [symmetric])
  qed
qed

text \<open>The world a raised \<open>e\<close> leaves behind a phase that stopped in world \<open>w\<close>: the
  handler reads the clock, unless \<open>e\<close> goes past it.\<close>

lemma extract_phase_world:
  assumes "''csv'' \<in> set S" "''api'' \<in> set S" "config st = PDict kvs"
  shows "world (snd (extract_phase env S st)) =
     (case csv_extractor env (case map_of kvs ''csv_path'' of None \<Rightarrow> PNone | Some v \<Rightarrow> v) (world st) of
        (Inl e, p', w1) \<Rightarrow> (if is_Exception e then snd (datetime_now env w1) else w1)
      | (Inr df, p', w1) \<Rightarrow>
          (case api_extractor env (case map_of kvs ''api_url'' of None \<Rightarrow> PNone | Some v \<Rightarrow> v) w1 of
             (Inl e, u', w2) \<Rightarrow> (if is_Exception e then snd (datetime_now env w2) else w2)
           | (Inr df2, u', w2) \<Rightarrow> snd (datetime_now env w2)))"
proof -
  define st1 where "st1 = st\<lparr>logger := logger st @ [(INFO, ExtractPhaseStart)]\<rparr>"
  have c1: "config st1 = PDict kvs" "world st1 = world st" using assms(3) by (simp_all add: st1_def)
  let ?p = "case map_of kvs ''csv_path'' of None \<Rightarrow> PNone | Some v \<Rightarrow> v"
  let ?u = "case map_of kvs ''api_url'' of None \<Rightarrow> PNone | Some v \<Rightarrow> v"
  obtain r1 p' w1 where x: "csv_extractor env ?p (world st) = (r1, p', w1)"
    by (cases "csv_extractor env ?p (world st)") auto
  have u: "dict_get (store_back ''csv_path'' ?p p' (PDict kvs)) ''api_url'' = Inr ?u"
    by (simp add: dict_get_store_back)
  show ?thesis
  proof (cases r1)
    case (Inl e)
    then show ?thesis using assms(1) x c1
      by (simp add: extract_phase_unfold st1_def [symmetric] extract_body_def bindE_def
          extract_csv_unfold)
  next
    case (Inr df)
    obtain r2 u' w2 where y: "api_extractor env ?u w1 = (r2, u', w2)"
      by (cases "api_extractor env ?u w1") auto
    show ?thesis using assms(1,2) x y c1 Inr u
      by (cases r2) (simp_all add: extract_phase_unfold st1_def [symmetric] extract_body_def bindE_def
          extract_csv_unfold extract_api_unfold)
  qed
qed

lemma bindE_returnE_right: "bindE m returnE = m"
  by (rule ext) (simp add: bindE_def returnE_def split: prod.splits sum.splits)

lemma apply_rules_Nil: "apply_rules env [] = returnE"
  by (rule ext) simp

lemma apply_rules_validate: "apply_rules env [''validate''] = validate_step env"
  by (rule ext) (simp add: apply_rules_Nil bindE_returnE_right)

lemma apply_clean_cases:
  "''clean'' \<in> set R \<Longrightarrow> apply_clean env R = clean_step env"
  "''clean'' \<notin> set R \<Longrightarrow> apply_clean env R = returnE"
  by (simp_all add: apply_clean_def clean_step_def fun_eq_iff)

lemma apply_validate_cases:
  "''validate'' \<in> set R \<Longrightarrow> apply_validate env R = validate_step env"
  "''validate'' \<notin> set R \<Longrightarrow> apply_validate env R = returnE"
  by (simp_all add: apply_validate_def validate_step_def fun_eq_iff)

lemma apply_rules_requested:
  "apply_rules env (filter (\<lambda>r. r \<in> set R) [''clean'', ''validate'']) df
     = bindE (apply_clean env R df) (apply_validate env R)"
proof (cases "''clean'' \<in> set R"; cases "''validate'' \<in> set R")
  assume "''clean'' \<in> set R" "''validate'' \<in> set R"
  then show ?thesis
    by (simp add: apply_clean_cases apply_validate_cases apply_rules_validate)
next
  assume "''clean'' \<in> set R" "''validate'' \<notin> set R"
  then show ?thesis
    by (simp add: apply_clean_cases apply_validate_cases apply_rules_Nil)
next
  assume "''clean'' \<notin> set R" "''validate'' \<in> set R"
  then show ?thesis
    by (simp add: apply_clean_cases apply_validate_cases apply_rules_Nil bindE_returnE
        bindE_returnE_right)
next
  assume "''clean'' \<notin> set R" "''validate'' \<notin> set R"
  then show ?thesis
    by (simp add: apply_clean_cases apply_validate_cases bindE_returnE)
qed

lemma transform_each_items:
  assumes "\<And>df. apply_rules env rs df = bindE (apply_clean env R df) (apply_validate env R)"
  shows "transform_each env rs items td = transform_items env R items td"
proof (induction items arbitrary: td)
  case Nil
  show ?case by simp
next
  case (Cons a items)
  obtain source df where a: "a = (source, df)" by (cases a)
  show ?case unfolding a transform_each.simps transform_items.simps assms
    by (simp add: bindE_assoc Cons.IH)
qed

lemma transform_requested:
  "transform env data R = transform_seq env data (filter (\<lambda>r. r \<in> set R) [''clean'', ''validate''])"
  unfolding transform_def transform_seq_def
  by (simp only: transform_each_items [OF apply_rules_requested])

lemma setitem_fresh: "k \<notin> fst ` set kvs \<Longrightarrow> setitem kvs k v = kvs @ [(k, v)]"
  by (induction kvs) auto

lemma transform_items_no_rules:
  assumes "''clean'' \<notin> set R" "''validate'' \<notin> set R"
  shows "distinct (map fst items) \<Longrightarrow> fst ` set td \<inter> fst ` set items = {} \<Longrightarrow>
    transform_items env R items td st =
      (Inr (td @ items),
       st\<lparr>logger := logger st @ map (\<lambda>(source, df). (INFO, TransformingSource source)) items\<rparr>)"
proof (induction items arbitrary: td st)
  case Nil
  show ?case by (simp add: returnE_def)
next
  case (Cons a items)
  obtain source df where a: "a = (source, df)" by (cases a)
  from Cons.prems have f: "source \<notin> fst ` set td" by (auto simp: a)
  from Cons.prems have d: "distinct (map fst items)"
    and i: "fst ` set (td @ [(source, df)]) \<inter> fst ` set items = {}" by (auto simp: a)
  show ?case
    using Cons.IH [OF d i]
    by (simp add: a apply_clean_cases(2) [OF assms(1)] apply_validate_cases(2) [OF assms(2)]
        bindE_returnE setitem_fresh [OF f] thenE_def bindE_def logger_info_def)
qed

section \<open>The object over its lifetime\<close>

lemma outer_refl: "reflp outer"
  by (rule reflpI) (simp add: outer_def)

lemma outer_trans: "transp outer"
  by (rule transpI) (auto simp: outer_def)

lemma logged_outer: "logged p r st st' \<Longrightarrow> outer st st'"
  unfolding logged_def outer_def by auto

lemma inner_outer: "inner st st' \<Longrightarrow> outer st st'"
  unfolding inner_def outer_def by auto

lemma steps_inner_outer: "steps inner m \<Longrightarrow> steps outer m"
  unfolding steps_def by (blast intro: inner_outer)

lemma outer_extract_phase: "steps outer (extract_phase env S)"
  unfolding steps_def using extract_phase_logged by (blast intro: logged_outer)

lemma outer_transform: "steps outer (transform env data R)"
  unfolding steps_def using transform_logged by (blast intro: logged_outer)

lemma outer_load: "steps outer (load env data mode)"
  unfolding steps_def using load_logged by (blast intro: logged_outer)

lemma inner_logger_info_any: "steps outer (logger_info m)" "steps outer (logger_error m)"
  by (simp_all add: steps_def outer_def logger_info_def logger_error_def)

lemmas outer_bindE = steps_bindE [OF outer_trans]

lemmas outer_thenE = steps_thenE [OF outer_trans]

lemmas outer_try_except = steps_try_except [OF outer_trans]

lemmas outer_pure = steps_pure [OF outer_refl]

lemma outer_run: "steps outer (run env S R m)"
  unfolding run_def run_phases_def
  by (intro outer_bindE outer_thenE outer_try_except outer_pure inner_logger_info_any
      outer_extract_phase outer_transform outer_load steps_inner_outer [OF inner_now])

lemma outer_perform: "outer st (perform env c st)"
proof (cases c)
  case (CallExtract S)
  then show ?thesis using outer_extract_phase [of env S] by (simp add: steps_def)
next
  case (CallTransform data R)
  then show ?thesis using outer_transform [of env data R] by (simp add: steps_def)
next
  case (CallLoad data mode)
  then show ?thesis using outer_load [of env data mode] by (simp add: steps_def)
next
  case (CallRun S R m)
  then show ?thesis using outer_run [of env S R m] by (simp add: steps_def)
next
  case CallGetExecutionLog
  then show ?thesis by (simp add: get_execution_log_def outer_def)
qed

lemma outer_lifetime: "outer st (lifetime env calls st)"
  unfolding lifetime_def
proof (induction calls arbitrary: st)
  case Nil
  show ?case by (simp add: outer_def)
next
  case (Cons c calls)
  have "outer st (perform env c st)" by (rule outer_perform)
  moreover have "outer (perform env c st) (fold (perform env) calls (perform env c st))"
    by (rule Cons.IH)
  ultimately show ?case using outer_trans by (auto dest: transpD)
qed

lemma lifetime_append: "lifetime env (cs @ ds) st = lifetime env ds (lifetime env cs st)"
  by (simp add: lifetime_def)


section \<open>The configuration\<close>

lemma same_config_refl: "reflp same_config"
  by (rule reflpI) (simp add: same_config_def)

lemma same_config_trans: "transp same_config"
  by (rule transpI) (simp add: same_config_def)

lemmas cfg_bindE = steps_bindE [OF same_config_trans]

lemmas cfg_thenE = steps_thenE [OF same_config_trans]

lemmas cfg_try_except = steps_try_except [OF same_config_trans]

lemmas cfg_pure = steps_pure [OF same_config_refl]

lemma cfg_atoms:
  "steps same_config (logger_info m)" "steps same_config (logger_error m)"
  "steps same_config (append_log en)" "steps same_config (now env)"
  "steps same_config (collab f)"
  by (simp_all add: steps_def same_config_def logger_info_def logger_error_def append_log_def
      now_def collab_def split: prod.splits)

lemma mutated_same: "mutated p p = p"
  by (cases p) simp_all

lemma store_back_unchanged:
  assumes "p = held k c" "mutated p p' = p"
  shows "store_back k p p' c = c"
proof (cases c)
  case (PDict kvs)
  show ?thesis
  proof (cases "map_of kvs k")
    case None
    with PDict show ?thesis by (simp add: store_back_def)
  next
    case (Some v)
    with PDict assms have "mutated p p' = v" by (simp add: held_def)
    with PDict Some show ?thesis by (simp add: store_back_def setitem_same)
  qed
qed (simp_all add: store_back_def)

lemma dict_get_held: "dict_get c k = Inr p \<Longrightarrow> p = held k c"
  by (cases c) (simp_all add: held_def)

lemma getitem_held: "getitem c k = Inr p \<Longrightarrow> p = held k c"
  by (cases c) (simp_all add: held_def split: option.splits)

lemma cfg_transform_items: "steps same_config (transform_items env R items td)"
proof (induction items arbitrary: td)
  case Nil
  show ?case by (simp add: cfg_pure)
next
  case (Cons a items)
  obtain source df where a: "a = (source, df)" by (cases a)
  show ?case unfolding a transform_items.simps apply_clean_def apply_validate_def
    by (intro cfg_bindE cfg_thenE cfg_atoms cfg_pure steps_if steps_case_prod Cons.IH)
qed

lemma cfg_transform: "steps same_config (transform env data R)"
  unfolding transform_def
  by (intro cfg_bindE cfg_thenE cfg_try_except cfg_atoms cfg_pure cfg_transform_items)

lemma cfg_extract_csv:
  assumes "keeps_references env"
  shows "steps same_config (extract_csv env S d)"
  unfolding steps_def same_config_def
proof
  fix st :: "'a system"
  have "\<And>p p' w r. dict_get (config st) ''csv_path'' = Inr p \<Longrightarrow>
      csv_extractor env p (world st) = (r, p', w) \<Longrightarrow>
      store_back ''csv_path'' p p' (config st) = config st"
  proof -
    fix p p' w r
    assume g: "dict_get (config st) ''csv_path'' = Inr p"
      and x: "csv_extractor env p (world st) = (r, p', w)"
    from assms x have "mutated p p' = p" unfolding keeps_references_def by (metis fst_conv snd_conv)
    with dict_get_held [OF g] show "store_back ''csv_path'' p p' (config st) = config st"
      by (rule store_back_unchanged)
  qed
  then show "config (snd (extract_csv env S d st)) = config st"
    by (auto simp: extract_csv_unfold split: sum.splits prod.splits)
qed

lemma cfg_extract_api:
  assumes "keeps_references env"
  shows "steps same_config (extract_api env S d)"
  unfolding steps_def same_config_def
proof
  fix st :: "'a system"
  have "\<And>p p' w r. dict_get (config st) ''api_url'' = Inr p \<Longrightarrow>
      api_extractor env p (world st) = (r, p', w) \<Longrightarrow>
      store_back ''api_url'' p p' (config st) = config st"
  proof -
    fix p p' w r
    assume g: "dict_get (config st) ''api_url'' = Inr p"
      and x: "api_extractor env p (world st) = (r, p', w)"
    from assms x have "mutated p p' = p" unfolding keeps_references_def by (metis fst_conv snd_conv)
    with dict_get_held [OF g] show "store_back ''api_url'' p p' (config st) = config st"
      by (rule store_back_unchanged)
  qed
  then show "config (snd (extract_api env S d st)) = config st"
    by (auto simp: extract_api_unfold split: sum.splits prod.splits)
qed

lemma cfg_extract_phase:
  "keeps_references env \<Longrightarrow> steps same_config (extract_phase env S)"
  unfolding extract_phase_def
  by (intro cfg_bindE cfg_thenE cfg_try_except cfg_atoms cfg_pure cfg_extract_csv cfg_extract_api)

lemma cfg_collab_held:
  assumes "\<forall>p w. mutated p (fst (snd (f p w))) = p"
  shows "steps same_config (collab_held k f)"
  unfolding steps_def same_config_def
proof
  fix st :: "'a system"
  obtain r p' w where x: "f (held k (config st)) (world st) = (r, p', w)"
    by (cases "f (held k (config st)) (world st)") auto
  with assms have "mutated (held k (config st)) p' = held k (config st)"
    by (metis fst_conv snd_conv)
  then have "store_back k (held k (config st)) p' (config st) = config st"
    by (intro store_back_unchanged) simp_all
  with x show "config (snd (collab_held k f st)) = config st"
    by (simp add: collab_held_def collab_ref_def)
qed

lemma cfg_load_items:
  assumes "keeps_references env"
  shows "steps same_config (load_items env l mode items acc)"
proof (induction items arbitrary: acc)
  case Nil
  show ?case by (simp add: cfg_pure)
next
  case (Cons a items)
  obtain source df where a: "a = (source, df)" by (cases a)
  have h: "\<forall>p w. mutated p (fst (snd (loader_load env l df mode p w))) = p"
    using assms unfolding keeps_references_def by blast
  show ?case unfolding a load_items.simps
    by (intro cfg_bindE cfg_thenE cfg_atoms cfg_collab_held [OF h] Cons.IH)
qed

lemma cfg_load_constructor:
  assumes "keeps_references env" and k: "\<And>loader. steps same_config (k loader)"
  shows "steps same_config
     (bindE get_config (\<lambda>c. bindE (liftE (getitem c ''database'')) (\<lambda>dbc.
        bindE (collab_ref ''database'' (database_loader env) dbc) k)))"
  unfolding steps_def same_config_def
proof
  fix st :: "'a system"
  show "config (snd (bindE get_config (\<lambda>c. bindE (liftE (getitem c ''database'')) (\<lambda>dbc.
        bindE (collab_ref ''database'' (database_loader env) dbc) k)) st)) = config st"
  proof (cases "getitem (config st) ''database''")
    case (Inl e)
    then show ?thesis by (simp add: bindE_def get_config_def liftE_def)
  next
    case (Inr dbc)
    obtain r p' w where x: "database_loader env dbc (world st) = (r, p', w)"
      by (cases "database_loader env dbc (world st)") auto
    with assms(1) have "mutated dbc p' = dbc" unfolding keeps_references_def
      by (metis fst_conv snd_conv)
    with getitem_held [OF Inr] have s: "store_back ''database'' dbc p' (config st) = config st"
      by (rule store_back_unchanged)
    show ?thesis
    proof (cases r)
      case (Inl e)
      with Inr x s show ?thesis
        by (simp add: bindE_def get_config_def liftE_def collab_ref_def)
    next
      case (Inr loader)
      have "config (snd (k loader (st\<lparr>world := w, config := config st\<rparr>))) = config st"
        using k [of loader] by (simp add: steps_def same_config_def)
      with Inr \<open>getitem (config st) ''database'' = Inr dbc\<close> x s show ?thesis
        by (simp add: bindE_def get_config_def liftE_def collab_ref_def)
    qed
  qed
qed

lemma cfg_load: "keeps_references env \<Longrightarrow> steps same_config (load env data mode)"
  unfolding load_def
  by (intro cfg_thenE cfg_try_except cfg_load_constructor cfg_bindE cfg_atoms cfg_pure
      cfg_load_items)

lemma cfg_run: "keeps_references env \<Longrightarrow> steps same_config (run env S R m)"
  unfolding run_def run_phases_def
  by (intro cfg_bindE cfg_thenE cfg_try_except cfg_atoms cfg_pure cfg_extract_phase
      cfg_transform cfg_load)

lemma cfg_perform:
  assumes "keeps_references env"
  shows "config (perform env c st) = config st"
proof (cases c)
  case (CallExtract S)
  then show ?thesis using cfg_extract_phase [OF assms, of S]
    by (simp add: steps_def same_config_def)
next
  case (CallTransform data R)
  then show ?thesis using cfg_transform [of env data R] by (simp add: steps_def same_config_def)
next
  case (CallLoad data mode)
  then show ?thesis using cfg_load [OF assms, of data mode]
    by (simp add: steps_def same_config_def)
next
  case (CallRun S R m)
  then show ?thesis using cfg_run [OF assms, of S R m] by (simp add: steps_def same_config_def)
next
  case CallGetExecutionLog
  then show ?thesis by (simp add: get_execution_log_def)
qed

lemma cfg_lifetime:
  assumes "keeps_references env"
  shows "config (lifetime env calls st) = config st"
  unfolding lifetime_def
  by (induction calls arbitrary: st) (simp_all add: cfg_perform [OF assms])

section \<open>The claims\<close>

text \<open>
  C1 as stated fails. A cleaner that raises \<open>KeyboardInterrupt\<close> makes \<open>run\<close> fail during
  transform, and \<open>run\<close> raises it; but the handlers are \<open>except Exception\<close>, so the
  entries that call appended are the success entry of extract alone: there is no entry
  for transform.
\<close>

theorem run_interrupted_without_entry:
  "failing_phase interrupted_env [''csv''] [''clean''] ''incremental''
      (run_prologue interrupted_env sample_state)
     = Some (''transform'', PyBaseExc ''KeyboardInterrupt'' []) \<and>
   run interrupted_env [''csv''] [''clean''] ''incremental'' sample_state
     = (Inl (PyBaseExc ''KeyboardInterrupt'' []),
        \<lparr>config = sample_config,
         execution_log =
           [\<lparr>fase = ''extract'', status = ''success'', timestamp = 2, records = Some 4,
             error = None\<rparr>],
         logger =
           [(INFO, Banner), (INFO, PipelineStarting), (INFO, Banner), (INFO, ExtractPhaseStart),
            (INFO, ExtractingCsv), (INFO, CsvExtracted 4), (INFO, TransformPhaseStart),
            (INFO, TransformingSource ''csv''), (INFO, ApplyingClean)],
         world = [''now'', ''csv'', ''now'', ''clean'']\<rparr>)"
  by (simp add: failing_phase_def run_prologue_def exec_defs)

text \<open>
  C1 (as amended). If \<open>run\<close> fails during phase \<open>P\<close> (the call of that phase in its try
  block raises \<open>e\<close>), then \<open>run\<close> raises \<open>e\<close> to its caller, and the entries this call of
  \<open>run\<close> appended contain no entry for a phase after \<open>P\<close> in the order extract, transform,
  load. When \<open>e\<close> is an instance of \<open>Exception\<close> they contain exactly one entry for \<open>P\<close>, of
  status error and with the text of \<open>e\<close>; when it is not, they contain no entry for \<open>P\<close>.
  Every failure of \<open>run\<close> is the failure of one of its phases.
\<close>

theorem run_failure_log:
  "(failing_phase env S R m (run_prologue env st) = Some (P, e) \<longrightarrow>
      fst (run env S R m st) = Inl e \<and>
      (\<exists>new. execution_log (snd (run env S R m st)) = execution_log st @ new \<and>
         (\<forall>x\<in>set new. fase x \<notin> set (phases_after P)) \<and>
         (is_Exception e \<longrightarrow>
            (\<exists>en. filter (\<lambda>x. fase x = P) new = [en] \<and>
               status en = ''error'' \<and> error en = Some (exc_str e) \<and> records en = None)) \<and>
         (\<not> is_Exception e \<longrightarrow> filter (\<lambda>x. fase x = P) new = []))) \<and>
   (fst (run env S R m st) = Inl e \<longrightarrow>
      (\<exists>P. failing_phase env S R m (run_prologue env st) = Some (P, e)))"
proof (cases env S R m st rule: run_cases)
  case (extract_fails e' t1 new)
  have "\<exists>new. execution_log (snd (run env S R m st)) = execution_log st @ new \<and>
         (\<forall>x\<in>set new. fase x \<notin> set (phases_after ''extract'')) \<and>
         (is_Exception e' \<longrightarrow>
            (\<exists>en. filter (\<lambda>x. fase x = ''extract'') new = [en] \<and>
               status en = ''error'' \<and> error en = Some (exc_str e') \<and> records en = None)) \<and>
         (\<not> is_Exception e' \<longrightarrow> filter (\<lambda>x. fase x = ''extract'') new = [])"
    by (intro exI [of _ "phase_entries ''extract'' t1 (Inl e')"])
      (simp add: extract_fails(3) phase_entries_def outcome_entry_simps phases_after_simps)
  with extract_fails(1,2) show ?thesis by clarsimp
next
  case (transform_fails e' t1 n1 t2 new)
  have "\<exists>new. execution_log (snd (run env S R m st)) = execution_log st @ new \<and>
         (\<forall>x\<in>set new. fase x \<notin> set (phases_after ''transform'')) \<and>
         (is_Exception e' \<longrightarrow>
            (\<exists>en. filter (\<lambda>x. fase x = ''transform'') new = [en] \<and>
               status en = ''error'' \<and> error en = Some (exc_str e') \<and> records en = None)) \<and>
         (\<not> is_Exception e' \<longrightarrow> filter (\<lambda>x. fase x = ''transform'') new = [])"
    by (intro exI [of _ "[outcome_entry ''extract'' t1 (Inr n1)] @
            phase_entries ''transform'' t2 (Inl e')"])
      (simp add: transform_fails(3) phase_entries_def outcome_entry_simps phases_after_simps)
  with transform_fails(1,2) show ?thesis by clarsimp
next
  case (load_fails e' t1 n1 t2 n2 t3 new)
  have "\<exists>new. execution_log (snd (run env S R m st)) = execution_log st @ new \<and>
         (\<forall>x\<in>set new. fase x \<notin> set (phases_after ''load'')) \<and>
         (is_Exception e' \<longrightarrow>
            (\<exists>en. filter (\<lambda>x. fase x = ''load'') new = [en] \<and>
               status en = ''error'' \<and> error en = Some (exc_str e') \<and> records en = None)) \<and>
         (\<not> is_Exception e' \<longrightarrow> filter (\<lambda>x. fase x = ''load'') new = [])"
    by (intro exI [of _ "[outcome_entry ''extract'' t1 (Inr n1),
            outcome_entry ''transform'' t2 (Inr n2)] @ phase_entries ''load'' t3 (Inl e')"])
      (simp add: load_fails(3) phase_entries_def outcome_entry_simps phases_after_simps)
  with load_fails(1,2) show ?thesis by clarsimp
next
  case (success t1 d t2 td t3 n3 sa sb new dur)
  then show ?thesis by simp
qed

theorem run_failure_log_witness:
  "failing_phase failing_env [''csv'', ''api''] [''clean'', ''validate''] ''incremental''
      (run_prologue failing_env sample_state) = Some (''transform'', PyExc ''ValueError'' ''bad row'') \<and>
   fst (run failing_env [''csv'', ''api''] [''clean'', ''validate''] ''incremental'' sample_state)
     = Inl (PyExc ''ValueError'' ''bad row'') \<and>
   (\<exists>new en.
      execution_log (snd (run failing_env [''csv'', ''api''] [''clean'', ''validate'']
        ''incremental'' sample_state)) = new \<and>
      filter (\<lambda>x. fase x = ''transform'') new = [en] \<and>
      status en = ''error'' \<and> error en = Some ''bad row'' \<and> records en = None \<and>
      (\<forall>x\<in>set new. fase x \<noteq> ''load''))"
proof -
  have h: "failing_phase failing_env [''csv'', ''api''] [''clean'', ''validate''] ''incremental''
      (run_prologue failing_env sample_state) = Some (''transform'', PyExc ''ValueError'' ''bad row'')"
    by (simp add: failing_phase_def run_prologue_def exec_defs)
  have l: "execution_log sample_state = []" by (simp add: sample_state_def)
  have p: "phases_after ''transform'' = [''load'']"
    by (simp add: phases_after_def phase_order_def)
  from h run_failure_log [of failing_env "[''csv'', ''api'']" "[''clean'', ''validate'']"
        "''incremental''" sample_state "''transform''" "PyExc ''ValueError'' ''bad row''"]
  obtain new where
    "fst (run failing_env [''csv'', ''api''] [''clean'', ''validate''] ''incremental'' sample_state)
       = Inl (PyExc ''ValueError'' ''bad row'')"
    "execution_log (snd (run failing_env [''csv'', ''api''] [''clean'', ''validate'']
        ''incremental'' sample_state)) = new"
    "\<forall>x\<in>set new. fase x \<noteq> ''load''"
    "\<exists>en. filter (\<lambda>x. fase x = ''transform'') new = [en] \<and>
       status en = ''error'' \<and> error en = Some ''bad row'' \<and> records en = None"
    unfolding l p append_Nil by auto
  with h show ?thesis by blast
qed

text \<open>
  C2. Whenever \<open>extract\<close> returns a mapping, its keys are exactly the requested sources
  among \<open>csv\<close> and \<open>api\<close>, each once. Identifiers outside that set are skipped: the call
  gives the same result, state and log as the call without them. With a configuration
  that is a mapping and extractors that do not fail, \<open>extract\<close> returns.
\<close>

theorem extract_keys:
  "(\<forall>d st'. extract_phase env S st = (Inr d, st') \<longrightarrow>
      set (map fst d) = set S \<inter> {''csv'', ''api''} \<and> distinct (map fst d)) \<and>
   extract_phase env S st = extract_phase env (filter (\<lambda>s. s = ''csv'' \<or> s = ''api'') S) st \<and>
   ((\<exists>kvs. config st = PDict kvs) \<longrightarrow>
    (\<forall>p w. \<not> isl (fst (csv_extractor env p w))) \<longrightarrow>
    (\<forall>u w. \<not> isl (fst (api_extractor env u w))) \<longrightarrow>
      \<not> isl (fst (extract_phase env S st)))"
proof (intro conjI allI impI)
  fix d st' assume r: "extract_phase env S st = (Inr d, st')"
  from extract_phase_keys [OF r] show "set (map fst d) = set S \<inter> {''csv'', ''api''}" by auto
  from extract_phase_keys [OF r] show "distinct (map fst d)" by simp
next
  show "extract_phase env S st = extract_phase env (filter (\<lambda>s. s = ''csv'' \<or> s = ''api'') S) st"
    using extract_phase_recognized [of env S] by simp
next
  assume "\<exists>kvs. config st = PDict kvs" "\<forall>p w. \<not> isl (fst (csv_extractor env p w))"
    "\<forall>u w. \<not> isl (fst (api_extractor env u w))"
  then obtain kvs where k: "config (st\<lparr>logger := logger st @ [(INFO, ExtractPhaseStart)]\<rparr>) = PDict kvs"
    and x: "\<forall>p w. \<not> isl (fst (csv_extractor env p w))"
    and a: "\<forall>u w. \<not> isl (fst (api_extractor env u w))" by auto
  show "\<not> isl (fst (extract_phase env S st))"
    unfolding extract_phase_isl by (rule extract_body_succeeds [OF k x a])
qed

theorem extract_keys_witness:
  "(\<exists>d st'. extract_phase sample_env [''db'', ''api'', ''csv'', ''api''] sample_state = (Inr d, st') \<and>
      set (map fst d) = {''csv'', ''api''} \<and> distinct (map fst d)) \<and>
   extract_phase sample_env [''db'', ''api'', ''csv'', ''api''] sample_state
     = extract_phase sample_env [''api'', ''csv'', ''api''] sample_state"
proof -
  have c: "\<exists>kvs. config sample_state = PDict kvs" by (simp add: sample_state_def sample_config_def)
  have x: "\<forall>p w. \<not> isl (fst (csv_extractor sample_env p w))" by (simp add: sample_env_def)
  have a: "\<forall>u w. \<not> isl (fst (api_extractor sample_env u w))" by (simp add: sample_env_def)
  have s: "set [''db'', ''api'', ''csv'', ''api''] \<inter> {''csv'', ''api''} = {''csv'', ''api''}" by auto
  let ?r = "extract_phase sample_env [''db'', ''api'', ''csv'', ''api''] sample_state"
  note k = extract_keys [of sample_env "[''db'', ''api'', ''csv'', ''api'']" sample_state]
  from k c x a have "\<not> isl (fst ?r)" by blast
  then obtain d st' where r: "?r = (Inr d, st')" by (metis prod.collapse sum.collapse(2))
  from k r have "set (map fst d) = set [''db'', ''api'', ''csv'', ''api''] \<inter> {''csv'', ''api''}"
    "distinct (map fst d)" by blast+
  moreover from k have "?r = extract_phase sample_env [''api'', ''csv'', ''api''] sample_state"
    by simp
  ultimately show ?thesis using r unfolding s by blast
qed




text \<open>
  C4 as stated fails. A call of \<open>transform\<close> whose cleaner raises \<open>KeyboardInterrupt\<close>
  raises it and appends no entry: the handler is \<open>except Exception\<close>.
\<close>

theorem phase_call_interrupted_appends_nothing:
  "fst (transform interrupted_env [(''csv'', [1, 2])] [''clean''] sample_state)
     = Inl (PyBaseExc ''KeyboardInterrupt'' []) \<and>
   execution_log (snd (transform interrupted_env [(''csv'', [1, 2])] [''clean''] sample_state))
     = execution_log sample_state \<and>
   execution_log sample_state = []"
  by (simp add: exec_defs)

text \<open>
  C4 (as amended). A call to extract, transform or load that returns, or that raises an
  instance of \<open>Exception\<close>, appends exactly one entry to the execution log: the log after
  the call is the log before it followed by one entry of that phase, which reports success
  exactly when the call returned, carries a record count exactly when its status is
  success and an error text exactly when its status is error. A call that raises something
  that is not an instance of \<open>Exception\<close> leaves the log as it was. In no case is an entry
  that was there changed or removed.
\<close>

theorem phase_call_appends_one_entry:
  "(logs_outcome (fst (extract_phase env S st)) \<longrightarrow>
      (\<exists>en. execution_log (snd (extract_phase env S st)) = execution_log st @ [en] \<and>
          fase en = ''extract'' \<and> well_formed_entry en \<and>
          (status en = ''success'') = (\<not> isl (fst (extract_phase env S st))))) \<and>
   (\<not> logs_outcome (fst (extract_phase env S st)) \<longrightarrow>
      execution_log (snd (extract_phase env S st)) = execution_log st) \<and>
   (logs_outcome (fst (transform env data R st)) \<longrightarrow>
      (\<exists>en. execution_log (snd (transform env data R st)) = execution_log st @ [en] \<and>
          fase en = ''transform'' \<and> well_formed_entry en \<and>
          (status en = ''success'') = (\<not> isl (fst (transform env data R st))))) \<and>
   (\<not> logs_outcome (fst (transform env data R st)) \<longrightarrow>
      execution_log (snd (transform env data R st)) = execution_log st) \<and>
   (logs_outcome (fst (load env data mode st)) \<longrightarrow>
      (\<exists>en. execution_log (snd (load env data mode st)) = execution_log st @ [en] \<and>
          fase en = ''load'' \<and> well_formed_entry en \<and>
          (status en = ''success'') = (\<not> isl (fst (load env data mode st))))) \<and>
   (\<not> logs_outcome (fst (load env data mode st)) \<longrightarrow>
      execution_log (snd (load env data mode st)) = execution_log st)"
proof -
  note x = logged_entry [OF extract_phase_logged, of env S st]
  note t = logged_entry [OF transform_logged, of env data R st]
  from load_logged [of env data mode st] obtain r where
    r: "map_sum id (\<lambda>n. ()) r = fst (load env data mode st)"
      "logged ''load'' r st (snd (load env data mode st))" by blast
  from r(1) have "isl r = isl (fst (load env data mode st))"
    by (metis isl_map_sum)
  moreover from r(1) have "logs_outcome r = logs_outcome (fst (load env data mode st))"
    by (metis logs_outcome_map_sum)
  ultimately have i: "isl r = isl (fst (load env data mode st))"
    "logs_outcome r = logs_outcome (fst (load env data mode st))" by simp_all
  note l = logged_entry [OF r(2)]
  from x have 1: "logs_outcome (fst (extract_phase env S st)) \<longrightarrow>
      (\<exists>en. execution_log (snd (extract_phase env S st)) = execution_log st @ [en] \<and>
          fase en = ''extract'' \<and> well_formed_entry en \<and>
          (status en = ''success'') = (\<not> isl (fst (extract_phase env S st))))"
    and 2: "\<not> logs_outcome (fst (extract_phase env S st)) \<longrightarrow>
      execution_log (snd (extract_phase env S st)) = execution_log st"
    by (simp_all add: isl_map_sum logs_outcome_map_sum)
  from t have 3: "logs_outcome (fst (transform env data R st)) \<longrightarrow>
      (\<exists>en. execution_log (snd (transform env data R st)) = execution_log st @ [en] \<and>
          fase en = ''transform'' \<and> well_formed_entry en \<and>
          (status en = ''success'') = (\<not> isl (fst (transform env data R st))))"
    and 4: "\<not> logs_outcome (fst (transform env data R st)) \<longrightarrow>
      execution_log (snd (transform env data R st)) = execution_log st"
    by (simp_all add: isl_map_sum logs_outcome_map_sum)
  from l have 5: "logs_outcome (fst (load env data mode st)) \<longrightarrow>
      (\<exists>en. execution_log (snd (load env data mode st)) = execution_log st @ [en] \<and>
          fase en = ''load'' \<and> well_formed_entry en \<and>
          (status en = ''success'') = (\<not> isl (fst (load env data mode st))))"
    and 6: "\<not> logs_outcome (fst (load env data mode st)) \<longrightarrow>
      execution_log (snd (load env data mode st)) = execution_log st"
    unfolding i by simp_all
  from 1 2 3 4 5 6 show ?thesis by blast
qed

theorem phase_call_appends_one_entry_witness:
  "(\<exists>en. execution_log (snd (extract_phase failing_env [''csv''] sample_state)) = [en] \<and>
          fase en = ''extract'' \<and> well_formed_entry en \<and> status en = ''success'') \<and>
   (\<exists>en. execution_log (snd (transform failing_env [(''csv'', [1, 2])] [''clean''] sample_state))
            = [en] \<and>
          fase en = ''transform'' \<and> well_formed_entry en \<and> status en \<noteq> ''success'') \<and>
   (\<exists>en. execution_log (snd (load failing_env [(''csv'', [1, 2])] ''full'' sample_state)) = [en] \<and>
          fase en = ''load'' \<and> well_formed_entry en \<and> status en = ''success'') \<and>
   execution_log (snd (transform interrupted_env [(''csv'', [1, 2])] [''clean''] sample_state)) = []"
proof -
  have l: "execution_log sample_state = []" by (simp add: sample_state_def)
  have a: "fst (extract_phase failing_env [''csv''] sample_state) = Inr [(''csv'', [1, 2, 2, 0])]"
    by (simp add: exec_defs)
  have b: "fst (transform failing_env [(''csv'', [1, 2])] [''clean''] sample_state)
      = Inl (PyExc ''ValueError'' ''bad row'')"
    by (simp add: exec_defs)
  have c: "fst (load failing_env [(''csv'', [1, 2])] ''full'' sample_state) = Inr ()"
    by (simp add: exec_defs)
  have d: "fst (transform interrupted_env [(''csv'', [1, 2])] [''clean''] sample_state)
      = Inl (PyBaseExc ''KeyboardInterrupt'' [])"
    by (simp add: exec_defs)
  from phase_call_appends_one_entry [of failing_env "[''csv'']" sample_state
        "[(''csv'', [1, 2])]" "[''clean'']" "''full''"]
  have 1: "(\<exists>en. execution_log (snd (extract_phase failing_env [''csv''] sample_state)) = [en] \<and>
          fase en = ''extract'' \<and> well_formed_entry en \<and> status en = ''success'') \<and>
   (\<exists>en. execution_log (snd (transform failing_env [(''csv'', [1, 2])] [''clean''] sample_state))
            = [en] \<and>
          fase en = ''transform'' \<and> well_formed_entry en \<and> status en \<noteq> ''success'') \<and>
   (\<exists>en. execution_log (snd (load failing_env [(''csv'', [1, 2])] ''full'' sample_state)) = [en] \<and>
          fase en = ''load'' \<and> well_formed_entry en \<and> status en = ''success'')"
    unfolding a b c l append_Nil by (simp add: logs_outcome_def)
  from phase_call_appends_one_entry [of interrupted_env "[]" sample_state
        "[(''csv'', [1, 2])]" "[''clean'']" "''full''"]
  have 2: "execution_log (snd (transform interrupted_env [(''csv'', [1, 2])] [''clean''] sample_state))
      = []"
    unfolding d l by (simp add: logs_outcome_def)
  from 1 2 show ?thesis by blast
qed

text \<open>
  C5 as stated fails. Construction does not look at the keys of the configuration: the
  empty mapping is accepted, and the missing \<open>database\<close> block shows only when \<open>load\<close>
  is called, as the \<open>KeyError\<close> that \<open>load\<close> logs and raises.
\<close>

theorem construction_accepts_missing_keys:
  "init_pipeline keyless_env ''config/database.yaml'' [] []
     = Inr \<lparr>config = PDict [], execution_log = [],
            logger = [(INFO, PipelineInitialized)], world = []\<rparr> \<and>
   fst (load keyless_env [] ''incremental''
          \<lparr>config = PDict [], execution_log = [],
           logger = [(INFO, PipelineInitialized)], world = []\<rparr>)
     = Inl (PyExc ''KeyError'' (repr_str ''database''))"
  by (simp add: init_pipeline_def load_config_def keyless_env_def sample_env_def load_def
      action_defs)

text \<open>
  C5 (as amended). Construction fails exactly when the configuration file cannot be
  opened or cannot be parsed, and then with the exception that \<open>open\<close> or the parser
  raised, as it is. A configuration that parses is accepted whatever keys it has. On
  successful construction the execution log is empty.
\<close>

theorem construction_outcome:
  "(init_pipeline env config_path lg w = Inl e \<longleftrightarrow>
      open_read env config_path w = Inl e \<or>
      (\<exists>f. open_read env config_path w = Inr f \<and> yaml_safe_load env f = Inl e)) \<and>
   (\<forall>f c. open_read env config_path w = Inr f \<and> yaml_safe_load env f = Inr c \<longrightarrow>
      init_pipeline env config_path lg w
        = Inr \<lparr>config = c, execution_log = [],
               logger = lg @ [(INFO, PipelineInitialized)], world = w\<rparr>)"
  by (auto simp: init_pipeline_def load_config_def split: sum.splits)

theorem construction_outcome_witness:
  "init_pipeline sample_env ''config/database.yaml'' [] []
     = Inr \<lparr>config = sample_config, execution_log = [],
            logger = [(INFO, PipelineInitialized)], world = []\<rparr> \<and>
   init_pipeline sample_env ''missing.yaml'' [] [] = Inl (PyExc ''FileNotFoundError'' ''missing.yaml'')"
proof -
  have o: "open_read sample_env ''config/database.yaml'' [] = Inr ''csv_path: data/vendas.csv'' \<and>
     yaml_safe_load sample_env ''csv_path: data/vendas.csv'' = Inr sample_config"
    by (simp add: sample_env_def)
  have m: "open_read sample_env ''missing.yaml'' [] = Inl (PyExc ''FileNotFoundError'' ''missing.yaml'')"
    by (simp add: sample_env_def)
  from construction_outcome [of sample_env "''config/database.yaml''" "[]" "[]"] o
  have 1: "init_pipeline sample_env ''config/database.yaml'' [] []
     = Inr \<lparr>config = sample_config, execution_log = [],
            logger = [(INFO, PipelineInitialized)], world = []\<rparr>"
    by simp
  from construction_outcome [of sample_env "''missing.yaml''" "[]" "[]"
      "PyExc ''FileNotFoundError'' ''missing.yaml''"] m
  have 2: "init_pipeline sample_env ''missing.yaml'' [] []
     = Inl (PyExc ''FileNotFoundError'' ''missing.yaml'')"
    by blast
  from 1 2 show ?thesis by blast
qed

text \<open>
  C6. \<open>transform\<close> applies to every source the requested rules among \<open>clean\<close> and
  \<open>validate\<close>, in that order: it is the phase that runs the rule sequence obtained by
  keeping, of \<open>clean, validate\<close>, the rules that occur in the rule list. With \<open>validate\<close>
  but not \<open>clean\<close> requested it runs validation alone, on the records as extracted. Rule
  identifiers other than the two are ignored.
\<close>

theorem transform_applies_requested_rules:
  "transform env data R = transform_seq env data (filter (\<lambda>r. r \<in> set R) [''clean'', ''validate'']) \<and>
   (''validate'' \<in> set R \<and> ''clean'' \<notin> set R \<longrightarrow>
      transform env data R = transform_seq env data [''validate'']) \<and>
   transform env data R = transform env data (filter (\<lambda>r. r = ''clean'' \<or> r = ''validate'') R)"
proof -
  have 2: "''validate'' \<in> set R \<and> ''clean'' \<notin> set R \<longrightarrow>
      transform env data R = transform_seq env data [''validate'']"
    unfolding transform_requested [of env data R] by simp
  have 3: "transform env data R = transform env data (filter (\<lambda>r. r = ''clean'' \<or> r = ''validate'') R)"
    unfolding transform_requested [of env data R]
      transform_requested [of env data "filter (\<lambda>r. r = ''clean'' \<or> r = ''validate'') R"]
    by simp
  from transform_requested [of env data R] 2 3 show ?thesis by blast
qed

theorem transform_applies_requested_rules_witness:
  "transform sample_env [(''csv'', [1, 1, 0])] [''validate'', ''enrich''] sample_state
     = transform_seq sample_env [(''csv'', [1, 1, 0])] [''validate''] sample_state \<and>
   fst (transform sample_env [(''csv'', [1, 1, 0])] [''validate'', ''enrich''] sample_state)
     = Inr [(''csv'', [1, 1])] \<and>
   world (snd (transform sample_env [(''csv'', [1, 1, 0])] [''validate'', ''enrich''] sample_state))
     = [''validate'', ''now'']"
proof -
  have h: "''validate'' \<in> set [''validate'', ''enrich''] \<and> ''clean'' \<notin> set [''validate'', ''enrich'']"
    by simp
  have 1: "transform sample_env [(''csv'', [1, 1, 0])] [''validate'', ''enrich'']
     = transform_seq sample_env [(''csv'', [1, 1, 0])] [''validate'']"
    using h transform_applies_requested_rules [of sample_env "[(''csv'', [1, 1, 0])]"
        "[''validate'', ''enrich'']"] by blast
  have 2: "transform_seq sample_env [(''csv'', [1, 1, 0])] [''validate''] sample_state
     = (Inr [(''csv'', [1, 1])],
        sample_state\<lparr>execution_log :=
            [\<lparr>fase = ''transform'', status = ''success'', timestamp = 1, records = Some 2,
              error = None\<rparr>],
          logger := [(INFO, TransformPhaseStart), (INFO, TransformingSource ''csv''),
                     (INFO, Validating), (INFO, Validated 2)],
          world := [''validate'', ''now'']\<rparr>)"
    by (simp add: transform_seq_def validate_step_def action_defs sample_env_def sample_state_def
        total_len_def)
  show ?thesis unfolding 1 2 by simp
qed

text \<open>
  C7. \<open>get_execution_log\<close> returns the execution log and changes nothing, so two calls
  with no phase call in between return equal sequences. Over any sequence of calls to
  the object the log is never cleared: what \<open>get_execution_log\<close> would return after the
  calls \<open>earlier\<close> is a prefix of what it would return after any further calls \<open>later\<close>.
\<close>

theorem execution_log_snapshots:
  "get_execution_log st = (Inr (execution_log st), st) \<and>
   fst (get_execution_log (snd (get_execution_log st))) = fst (get_execution_log st) \<and>
   prefix (execution_log (lifetime env earlier st))
          (execution_log (lifetime env (earlier @ later) st))"
proof -
  have "outer (lifetime env earlier st) (lifetime env later (lifetime env earlier st))"
    by (rule outer_lifetime)
  then show ?thesis by (simp add: get_execution_log_def lifetime_append outer_def)
qed

theorem execution_log_snapshots_witness:
  "prefix (execution_log (lifetime failing_env [CallExtract [''csv'']] sample_state))
     (execution_log (lifetime failing_env
        ([CallExtract [''csv'']] @ [CallRun [''csv''] [''clean''] ''full'', CallGetExecutionLog])
        sample_state)) \<and>
   length (execution_log (lifetime failing_env [CallExtract [''csv'']] sample_state)) = 1"
proof -
  have "length (execution_log (lifetime failing_env [CallExtract [''csv'']] sample_state)) = 1"
    by (simp add: lifetime_def exec_defs)
  with execution_log_snapshots [of sample_state failing_env "[CallExtract [''csv'']]"
      "[CallRun [''csv''] [''clean''] ''full'', CallGetExecutionLog]"]
  show ?thesis by blast
qed

text \<open>
  C8 as stated fails. The loader is handed \<open>self.config['database']\<close> itself, not a copy:
  with a loader whose \<open>load\<close> writes into the block it holds, the configuration after
  \<open>load\<close> is not the one before.
\<close>

theorem loader_changes_configuration:
  "config (snd (load mutating_env [(''csv'', [1, 2])] ''full'' sample_state))
     = PDict [(''csv_path'', PStr ''data/vendas.csv''), (''api_url'', PStr ''http://localhost/vendas''),
              (''database'', PDict [(''host'', PStr ''elsewhere'')])] \<and>
   config sample_state
     = PDict [(''csv_path'', PStr ''data/vendas.csv''), (''api_url'', PStr ''http://localhost/vendas''),
              (''database'', PDict [(''host'', PStr ''localhost'')])] \<and>
   fst (load mutating_env [(''csv'', [1, 2])] ''full'' sample_state) = Inr ()"
  by (simp add: exec_defs)

text \<open>
  C8 (as amended). The configuration is what \<open>_load_config\<close> returned at construction, and
  the pipeline itself never writes it: \<open>transform\<close> and \<open>get_execution_log\<close>, which hand
  nothing of it to a collaborator, leave it as it was; and when the extractors and the
  loader leave the objects they are handed as they were, then after \<open>extract\<close>, \<open>load\<close> or
  \<open>run\<close>, returning or raising, and after any sequence of calls, the configuration is
  the one before.
\<close>

theorem configuration_never_modified:
  "config (snd (transform env data R st)) = config st \<and>
   config (snd (get_execution_log st)) = config st \<and>
   (keeps_references env \<longrightarrow>
      config (snd (extract_phase env S st)) = config st \<and>
      config (snd (load env data mode st)) = config st \<and>
      config (snd (run env S R mode st)) = config st \<and>
      config (lifetime env calls st) = config st) \<and>
   (\<forall>st0. init_pipeline env config_path lg w = Inr st0 \<longrightarrow>
      load_config env config_path w = Inr (config st0))"
proof -
  have t: "config (snd (transform env data R st)) = config st"
    using cfg_transform [of env data R] by (simp add: steps_def same_config_def)
  have g: "config (snd (get_execution_log st)) = config st"
    by (simp add: get_execution_log_def)
  have k: "keeps_references env \<longrightarrow>
      config (snd (extract_phase env S st)) = config st \<and>
      config (snd (load env data mode st)) = config st \<and>
      config (snd (run env S R mode st)) = config st \<and>
      config (lifetime env calls st) = config st"
  proof
    assume a: "keeps_references env"
    show "config (snd (extract_phase env S st)) = config st \<and>
      config (snd (load env data mode st)) = config st \<and>
      config (snd (run env S R mode st)) = config st \<and>
      config (lifetime env calls st) = config st"
      using cfg_extract_phase [OF a, of S] cfg_load [OF a, of data mode] cfg_run [OF a, of S R mode]
        cfg_lifetime [OF a, of calls st]
      by (simp add: steps_def same_config_def)
  qed
  have i: "\<forall>st0. init_pipeline env config_path lg w = Inr st0 \<longrightarrow>
      load_config env config_path w = Inr (config st0)"
    by (auto simp: init_pipeline_def split: sum.splits)
  from t g k i show ?thesis by blast
qed

theorem configuration_never_modified_witness:
  "keeps_references sample_env \<and>
   init_pipeline sample_env ''config/database.yaml'' [] []
     = Inr (sample_state\<lparr>logger := [(INFO, PipelineInitialized)]\<rparr>) \<and>
   load_config sample_env ''config/database.yaml'' [] = Inr sample_config \<and>
   config (lifetime sample_env
      [CallRun [''csv''] [''clean'', ''validate''] ''incremental'', CallGetExecutionLog]
      (sample_state\<lparr>logger := [(INFO, PipelineInitialized)]\<rparr>)) = sample_config"
proof -
  have k: "keeps_references sample_env"
    by (simp add: keeps_references_def sample_env_def mutated_same)
  have i: "init_pipeline sample_env ''config/database.yaml'' [] []
     = Inr (sample_state\<lparr>logger := [(INFO, PipelineInitialized)]\<rparr>)"
    by (simp add: init_pipeline_def load_config_def sample_env_def sample_state_def)
  have c: "config sample_state = sample_config" by (simp add: sample_state_def)
  from configuration_never_modified [of sample_env "[]" "[]"
      "sample_state\<lparr>logger := [(INFO, PipelineInitialized)]\<rparr>" "[]" "''full''"
      "[CallRun [''csv''] [''clean'', ''validate''] ''incremental'', CallGetExecutionLog]"
      "''config/database.yaml''" "[]" "[]"] i k
  show ?thesis by (simp add: c)
qed

text \<open>
  C9. \<open>extract\<close> and \<open>transform\<close> depend on the source list and on the rule list through
  their members only: lists with the same members give the same result, the same
  state and so the same new log entries. Extraction visits \<open>csv\<close> before \<open>api\<close> whatever
  the order of the list: the lines announcing the visits come in that order, and when
  both are requested the API extractor acts on the world the CSV extractor left (and
  is not called when the CSV extractor raised); the clock is read last, for the entry,
  unless what was raised went past the handler.
\<close>

theorem membership_only:
  "(set S1 = set S2 \<longrightarrow> extract_phase env S1 st = extract_phase env S2 st) \<and>
   (set R1 = set R2 \<longrightarrow> transform env data R1 st = transform env data R2 st) \<and>
   subseq (extractor_visits (new_lines st (snd (extract_phase env S st))))
     [ExtractingCsv, ExtractingApi] \<and>
   (''csv'' \<in> set S \<and> ''api'' \<in> set S \<and> config st = PDict kvs \<longrightarrow>
      world (snd (extract_phase env S st)) =
        (case csv_extractor env (case map_of kvs ''csv_path'' of None \<Rightarrow> PNone | Some v \<Rightarrow> v)
                (world st) of
           (Inl e, p', w1) \<Rightarrow> (if is_Exception e then snd (datetime_now env w1) else w1)
         | (Inr df, p', w1) \<Rightarrow>
             (case api_extractor env
                     (case map_of kvs ''api_url'' of None \<Rightarrow> PNone | Some v \<Rightarrow> v) w1 of
                (Inl e, u', w2) \<Rightarrow> (if is_Exception e then snd (datetime_now env w2) else w2)
              | (Inr df2, u', w2) \<Rightarrow> snd (datetime_now env w2))))"
proof (intro conjI impI)
  assume "set S1 = set S2"
  then show "extract_phase env S1 st = extract_phase env S2 st"
    by (simp add: extract_phase_cong [of S1 S2])
next
  assume "set R1 = set R2"
  then show "transform env data R1 st = transform env data R2 st"
    by (simp add: transform_cong [of R1 R2])
next
  show "subseq (extractor_visits (new_lines st (snd (extract_phase env S st))))
     [ExtractingCsv, ExtractingApi]"
    unfolding extract_phase_visits by simp
next
  assume "''csv'' \<in> set S \<and> ''api'' \<in> set S \<and> config st = PDict kvs"
  then show "world (snd (extract_phase env S st)) =
        (case csv_extractor env (case map_of kvs ''csv_path'' of None \<Rightarrow> PNone | Some v \<Rightarrow> v)
                (world st) of
           (Inl e, p', w1) \<Rightarrow> (if is_Exception e then snd (datetime_now env w1) else w1)
         | (Inr df, p', w1) \<Rightarrow>
             (case api_extractor env
                     (case map_of kvs ''api_url'' of None \<Rightarrow> PNone | Some v \<Rightarrow> v) w1 of
                (Inl e, u', w2) \<Rightarrow> (if is_Exception e then snd (datetime_now env w2) else w2)
              | (Inr df2, u', w2) \<Rightarrow> snd (datetime_now env w2)))"
    using extract_phase_world [of S st kvs env] by blast
qed

theorem membership_only_witness:
  "extract_phase sample_env [''api'', ''csv'', ''api''] sample_state
     = extract_phase sample_env [''csv'', ''api''] sample_state \<and>
   transform sample_env [(''csv'', [1, 1, 0])] [''validate'', ''clean'', ''validate''] sample_state
     = transform sample_env [(''csv'', [1, 1, 0])] [''clean'', ''validate''] sample_state \<and>
   world (snd (extract_phase sample_env [''api'', ''csv'', ''api''] sample_state))
     = [''csv'', ''api'', ''now'']"
proof -
  have s: "set [''api'', ''csv'', ''api''] = set [''csv'', ''api'']" by auto
  have r: "set [''validate'', ''clean'', ''validate''] = set [''clean'', ''validate'']" by auto
  have m: "''csv'' \<in> set [''api'', ''csv'', ''api''] \<and> ''api'' \<in> set [''api'', ''csv'', ''api''] \<and>
    config sample_state = PDict [(''csv_path'', PStr ''data/vendas.csv''),
      (''api_url'', PStr ''http://localhost/vendas''),
      (''database'', PDict [(''host'', PStr ''localhost'')])]"
    by (simp add: sample_state_def sample_config_def)
  have w: "world sample_state = []" by (simp add: sample_state_def)
  note t = membership_only [of "[''api'', ''csv'', ''api'']" "[''csv'', ''api'']" sample_env
      sample_state "[''validate'', ''clean'', ''validate'']" "[''clean'', ''validate'']"
      "[(''csv'', [1, 1, 0])]" "[''api'', ''csv'', ''api'']"]
  from t s have 1: "extract_phase sample_env [''api'', ''csv'', ''api''] sample_state
     = extract_phase sample_env [''csv'', ''api''] sample_state" by blast
  from t r have 2: "transform sample_env [(''csv'', [1, 1, 0])] [''validate'', ''clean'', ''validate'']
     sample_state = transform sample_env [(''csv'', [1, 1, 0])] [''clean'', ''validate''] sample_state"
    by blast
  from t [THEN conjunct2, THEN conjunct2, THEN conjunct2, rule_format, OF m]
  have 3: "world (snd (extract_phase sample_env [''api'', ''csv'', ''api''] sample_state))
     = [''csv'', ''api'', ''now'']"
    by (simp add: w sample_env_def)
  from 1 2 3 show ?thesis by blast
qed

text \<open>
  C10. With a rule list that contains neither \<open>clean\<close> nor \<open>validate\<close>, \<open>transform\<close> on a
  mapping (keys distinct) returns that mapping unchanged, appends the success entry whose
  record count is the total number of input records, and calls no collaborator except
  the clock.
\<close>

theorem transform_without_rules:
  assumes "''clean'' \<notin> set R" "''validate'' \<notin> set R" "distinct (map fst data)"
  shows "\<exists>st'. transform env data R st = (Inr data, st') \<and>
           execution_log st' = execution_log st @
             [\<lparr>fase = ''transform'', status = ''success'',
               timestamp = fst (datetime_now env (world st)),
               records = Some (sum_list (map (\<lambda>(source, df). int (length df)) data)),
               error = None\<rparr>] \<and>
           config st' = config st \<and> world st' = snd (datetime_now env (world st))"
  using transform_items_no_rules [OF assms(1,2), of data "[]" env] assms(3)
  by (simp add: transform_def thenE_def bindE_def try_except_def logger_info_def now_def
      append_log_def returnE_def total_len_def split: prod.splits)

theorem transform_without_rules_witness:
  "\<exists>st'. transform sample_env [(''csv'', [1, 1, 0]), (''api'', [7])] [''enrich''] sample_state
            = (Inr [(''csv'', [1, 1, 0]), (''api'', [7])], st') \<and>
         execution_log st' =
           [\<lparr>fase = ''transform'', status = ''success'', timestamp = 0, records = Some 4,
             error = None\<rparr>] \<and>
         world st' = [''now'']"
proof -
  have h: "''clean'' \<notin> set [''enrich'']" "''validate'' \<notin> set [''enrich'']"
    "distinct (map fst [(''csv'', [1, 1, 0 :: nat]), (''api'', [7])])" by simp_all
  have n: "datetime_now sample_env (world sample_state) = (0, [''now''])"
    "execution_log sample_state = []"
    by (simp_all add: sample_env_def sample_state_def)
  from transform_without_rules [OF h, of sample_env sample_state] obtain st' where
    "transform sample_env [(''csv'', [1, 1, 0]), (''api'', [7])] [''enrich''] sample_state
       = (Inr [(''csv'', [1, 1, 0]), (''api'', [7])], st')"
    "execution_log st' =
       [\<lparr>fase = ''transform'', status = ''success'', timestamp = 0, records = Some 4,
         error = None\<rparr>]"
    "world st' = [''now'']"
    unfolding n by auto
  then show ?thesis by blast
qed

end
